theory Spec2Isabelle
  imports Main "HOL-Library.Sublist" "HOL-Library.AList"
begin

section \<open>Diagnostics\<close>

text \<open>
  The code reports through \<open>Output::Debug\<close> and \<open>Output::Warning\<close>. A call of either is
  an entry of the log a modelled function returns next to its value; the message keeps the
  format arguments, not the wording.
\<close>

text \<open>
  \<open>RTP::Type\<close> is an enum of \<open>rtp.h\<close> (not among the sources): the enumerator the code
  names, and the other variants by number.
\<close>

datatype rtp_type = RPG2000_DonMiguelAddon | RtpVariant nat

datatype message =
    PathTraversal string
  | GameUsesRtp rtp_type
  | CannotFind string string
  | ClaimsNoRtpButUsesIt
  | MissingRtpAsset string string bool
  | FolderTwice string
  | FolderTwiceHint
  | ErrorOpeningDir string

datatype log_entry = Debug message | Warning message

fun is_debug :: "log_entry \<Rightarrow> bool" where
  "is_debug (Debug m) = True"
| "is_debug (Warning m) = False"

section \<open>Paths\<close>

text \<open>
  A \<open>std::string\<close> is a \<open>string\<close>. \<open>SplitPath\<close> works on decoded code points; one
  \<open>char\<close> of the model stands for one code point, which is exact for ASCII paths.
\<close>

definition backslash :: char where
  "backslash = CHR 0x5C"

definition replace :: "char \<Rightarrow> char \<Rightarrow> string \<Rightarrow> string" where
  "replace old new s = map (\<lambda>c. if c = old then new else c) s"

text \<open>\<open>FileFinder::MakePath\<close>, the branch compiled when \<open>_WIN32\<close> is not defined.\<close>

definition MakePath :: "string \<Rightarrow> string \<Rightarrow> string" where
  "MakePath dir name =
     replace backslash CHR ''/'' (if dir = [] then name else dir @ ''/'' @ name)"

text \<open>
  Modelled from the spec: \<open>Utils::Tokenize\<close> is not among the sources. The spec's
  tokenizer "splits a logical path string into ordered segments" at every code point the
  predicate accepts; a delimiter closes the current segment (empty segments are produced,
  the canonicalizer drops them) and the rest of the string is the last segment.
\<close>

fun Tokenize_from :: "(char \<Rightarrow> bool) \<Rightarrow> string \<Rightarrow> string \<Rightarrow> string list" where
  "Tokenize_from f cur [] = [cur]"
| "Tokenize_from f cur (c # cs) =
     (if f c then cur # Tokenize_from f [] cs else Tokenize_from f (cur @ [c]) cs)"

definition Tokenize :: "string \<Rightarrow> (char \<Rightarrow> bool) \<Rightarrow> string list" where
  "Tokenize s f = Tokenize_from f [] s"

text \<open>
  The delimiter predicate of \<open>FileFinder::SplitPath\<close>. \<open>esc\<close> is \<open>Player::escape_symbol\<close>;
  when it is empty the code compares with the code point 0.
\<close>

definition escape_char_back :: "string \<Rightarrow> char" where
  "escape_char_back esc = (case esc of [] \<Rightarrow> CHR 0x00 | c # cs \<Rightarrow> c)"

definition is_delimiter :: "string \<Rightarrow> char \<Rightarrow> bool" where
  "is_delimiter esc t = (t = escape_char_back esc \<or> t = CHR ''/'')"

definition SplitPath :: "string \<Rightarrow> string \<Rightarrow> string list" where
  "SplitPath esc path = Tokenize path (is_delimiter esc)"

text \<open>
  \<open>FileFinder::MakeCanonical\<close>. The first loop runs over the components with the vector
  \<open>path_can\<close> (\<open>push_back\<close> appends, \<open>pop_back\<close> removes the last element), the counter
  \<open>initial_deepness\<close> and the log; the second loop joins with \<open>MakePath\<close>.
\<close>

fun MakeCanonical_loop ::
  "string \<Rightarrow> string list \<Rightarrow> string list \<Rightarrow> int \<Rightarrow> log_entry list
     \<Rightarrow> string list \<times> log_entry list" where
  "MakeCanonical_loop path [] path_can initial_deepness log = (path_can, log)"
| "MakeCanonical_loop path (path_comp # rest) path_can initial_deepness log =
     (if path_comp = ''..'' then
        (if length path_can > 0 then
           MakeCanonical_loop path rest (butlast path_can) initial_deepness log
         else if initial_deepness > 0 then
           MakeCanonical_loop path rest path_can (initial_deepness - 1) log
         else
           MakeCanonical_loop path rest path_can initial_deepness
             (log @ [Debug (PathTraversal path)]))
      else if path_comp = [] \<or> path_comp = ''.'' then
        MakeCanonical_loop path rest path_can initial_deepness log
      else
        MakeCanonical_loop path rest (path_can @ [path_comp]) initial_deepness log)"

text \<open>The loop \<open>for (s : v) ret = MakePath(ret, s)\<close>, started with \<open>ret\<close>.\<close>

fun join_MakePath :: "string \<Rightarrow> string list \<Rightarrow> string" where
  "join_MakePath ret [] = ret"
| "join_MakePath ret (s # ss) = join_MakePath (MakePath ret s) ss"

definition MakeCanonical_log :: "string \<Rightarrow> string \<Rightarrow> int \<Rightarrow> string \<times> log_entry list" where
  "MakeCanonical_log esc path initial_deepness =
     (case MakeCanonical_loop path (SplitPath esc path) [] initial_deepness [] of
        (path_can, log) \<Rightarrow> (join_MakePath [] path_can, log))"

definition MakeCanonical :: "string \<Rightarrow> string \<Rightarrow> int \<Rightarrow> string" where
  "MakeCanonical esc path initial_deepness = fst (MakeCanonical_log esc path initial_deepness)"

text \<open>
  The canonicalizer as the specification words it: a left-to-right fold over the segments
  that keeps the retained segments (most recent first), the remaining depth and the number
  of clamped ascents, and a join with the canonical separator.
\<close>

fun canonical_fold :: "string list \<Rightarrow> string list \<Rightarrow> int \<Rightarrow> nat \<Rightarrow> string list \<times> nat" where
  "canonical_fold [] kept depth clamped = (rev kept, clamped)"
| "canonical_fold (seg # segs) kept depth clamped =
     (if seg = [] \<or> seg = ''.'' then canonical_fold segs kept depth clamped
      else if seg \<noteq> ''..'' then canonical_fold segs (seg # kept) depth clamped
      else (case kept of
              k # ks \<Rightarrow> canonical_fold segs ks depth clamped
            | [] \<Rightarrow> if depth > 0 then canonical_fold segs [] (depth - 1) clamped
                    else canonical_fold segs [] depth (Suc clamped)))"

fun join_segments :: "string list \<Rightarrow> string" where
  "join_segments [] = []"
| "join_segments [s] = s"
| "join_segments (s # t # ss) = s @ ''/'' @ join_segments (t # ss)"

definition canonicalize_spec :: "string \<Rightarrow> string \<Rightarrow> int \<Rightarrow> string \<times> nat" where
  "canonicalize_spec esc path depth =
     (case canonical_fold (SplitPath esc path) [] depth 0 of
        (segs, clamped) \<Rightarrow> (join_segments segs, clamped))"


section \<open>Directory trees and the external collaborators\<close>

text \<open>
  What a modelled call can do instead of returning: fail an \<open>assert\<close>, dereference an
  end iterator, an invalidated iterator or a null pointer, or never come back.
\<close>

datatype failure =
    AssertionFailed
  | InvalidDereference
  | NoReturn

text \<open>
  \<open>FileFinder::DirectoryTree\<close> is declared in \<open>filefinder.h\<close> (not among the sources);
  the fields are the ones the code reads. Keys are normalized names, values the names on
  disk.
\<close>

record DirectoryTree =
  directory_path :: string
  files :: "string \<rightharpoonup> string"
  directories :: "string \<rightharpoonup> string"
  sub_members :: "string \<rightharpoonup> (string \<rightharpoonup> string)"

text \<open>
  The collaborators the code calls and the sources do not contain, taken as parameters:
  \<open>Player::escape_symbol\<close>, \<open>lcf::ReaderUtil::Normalize\<close>, \<open>Tr::GetCurrentTranslationId\<close>,
  \<open>Tr::GetTranslationDir\<close>, \<open>Player::EngineVersion\<close> and the two RTP table lookups.
  \<open>RTP::LookupAnyToRtp\<close> returns a \<open>std::vector\<close>; \<open>RTP::LookupRtpToRtp\<close> returns the
  translated name and may write the flag behind its \<open>bool*\<close> argument (\<open>None\<close>: it leaves
  the flag as it is).
\<close>

record env =
  escape_symbol :: string
  Normalize :: "string \<Rightarrow> string"
  GetCurrentTranslationId :: string
  GetTranslationDir :: string
  EngineVersion :: int
  LookupAnyToRtp :: "string \<Rightarrow> string \<Rightarrow> int \<Rightarrow> rtp_type list"
  LookupRtpToRtp :: "string \<Rightarrow> string \<Rightarrow> rtp_type \<Rightarrow> rtp_type \<Rightarrow> string \<times> bool option"

section \<open>The RTP state\<close>

text \<open>
  \<open>RTP::RtpHitInfo\<close> (declared in \<open>rtp.h\<close>, not among the sources) with the fields the
  code reads, and the anonymous struct \<open>rtp_state\<close>. A \<open>shared_ptr\<close> to a tree is the tree.
\<close>

record RtpHitInfo =
  hit_type :: rtp_type
  hit_name :: string
  hit_tree :: DirectoryTree
  hits :: int
  hit_max :: int

record rtp_state =
  search_paths :: "DirectoryTree list"
  disable_rtp :: bool
  game_has_full_package_flag :: bool
  warning_broken_rtp_game_shown :: bool
  detected_rtp :: "RtpHitInfo list"
  game_rtp :: "rtp_type list"

text \<open>The value \<open>rtp_state = {}\<close> of \<open>InitRtpPaths\<close> and \<open>Quit\<close>: the member initialisers.\<close>

definition rtp_state_init :: rtp_state where
  "rtp_state_init =
     \<lparr>search_paths = [], disable_rtp = True, game_has_full_package_flag = False,
      warning_broken_rtp_game_shown = False, detected_rtp = [], game_rtp = []\<rparr>"

section \<open>FindFile on one tree\<close>

text \<open>
  The overloads of \<open>FindFile\<close> and \<open>FindDefault\<close> call one another: \<open>FindFile\<close> on a tree
  calls \<open>FindDefault(tree, name)\<close>, which for a name of several components calls the
  project-wide \<open>FindDefault(dir, name)\<close>, that is the top-level \<open>FindFile\<close> with the table
  \<open>no_exts\<close>, which searches the project tree and the RTP and changes the global
  \<open>rtp_state\<close>. Every searching function therefore takes the state and returns the path,
  the state and the log. The functions named \<open>_via\<close> take the project-wide search as an
  argument; below, the argument becomes the search itself.
\<close>

type_synonym project_search =
  "string \<Rightarrow> string \<Rightarrow> rtp_state \<Rightarrow> failure + (string \<times> rtp_state \<times> log_entry list)"

text \<open>\<open>std::string::find(pattern)\<close> and \<open>std::string::find_first_of\<close> with one character.\<close>

fun find_str :: "string \<Rightarrow> string \<Rightarrow> nat option" where
  "find_str pat [] = (if pat = [] then Some 0 else None)"
| "find_str pat (c # cs) =
     (if prefix pat (c # cs) then Some 0 else map_option Suc (find_str pat cs))"

fun find_first_of :: "char \<Rightarrow> string \<Rightarrow> nat option" where
  "find_first_of d [] = None"
| "find_first_of d (c # cs) = (if c = d then Some 0 else map_option Suc (find_first_of d cs))"

text \<open>
  The loop of \<open>FindFile\<close> that turns every escape symbol of the name into a slash: it
  searches from the start again after each replacement. With an empty escape symbol (or
  one that is a slash) the search succeeds forever; the value \<open>None\<close> is that case.
\<close>

partial_function (option) replace_escape :: "string \<Rightarrow> string \<Rightarrow> string option" where
  "replace_escape escape corrected_name =
     (case find_str escape corrected_name of
        None \<Rightarrow> Some corrected_name
      | Some escape_pos \<Rightarrow>
          replace_escape escape
            (take escape_pos corrected_name @ ''/''
               @ drop (escape_pos + length escape) corrected_name))"

text \<open>
  \<open>FileFinder::FindDefault(const DirectoryTree& tree, const std::string& name)\<close>. A name of
  several components goes to \<open>FindDefault(path_comps[0], f)\<close>, the project-wide search.
\<close>

definition FindDefault_tree_via ::
  "project_search \<Rightarrow> env \<Rightarrow> DirectoryTree \<Rightarrow> string \<Rightarrow> rtp_state
     \<Rightarrow> failure + (string \<times> rtp_state \<times> log_entry list)" where
  "FindDefault_tree_via project e tree name st =
     (let path_comps = SplitPath (escape_symbol e) name in
      if length path_comps > 1 then
        project (path_comps ! 0) (join_MakePath [] (tl path_comps)) st
      else (case files tree (Normalize e name) of
              Some original \<Rightarrow> Inr (MakePath (directory_path tree) original, st, [])
            | None \<Rightarrow> Inr ([], st, [])))"

text \<open>The extension loop of the path-correction branch (canonical path without a slash).\<close>

fun FindFile_canon_exts_via ::
  "project_search \<Rightarrow> env \<Rightarrow> DirectoryTree \<Rightarrow> string \<Rightarrow> string list \<Rightarrow> rtp_state
     \<Rightarrow> log_entry list \<Rightarrow> failure + (string \<times> rtp_state \<times> log_entry list)" where
  "FindFile_canon_exts_via project e tree canon [] st log = Inr ([], st, log)"
| "FindFile_canon_exts_via project e tree canon (c # exts) st log =
     (case FindDefault_tree_via project e tree (canon @ c) st of
        Inl f \<Rightarrow> Inl f
      | Inr (res, st', l) \<Rightarrow>
          if res \<noteq> [] then Inr (res, st', log @ l)
          else FindFile_canon_exts_via project e tree canon exts st' (log @ l))"

text \<open>The extension loop over the members of the directory found.\<close>

fun FindFile_member_exts :: "(string \<rightharpoonup> string) \<Rightarrow> string \<Rightarrow> string list \<Rightarrow> string option" where
  "FindFile_member_exts dir_map corrected_name [] = None"
| "FindFile_member_exts dir_map corrected_name (c # exts) =
     (case dir_map (corrected_name @ c) of
        Some original \<Rightarrow> Some original
      | None \<Rightarrow> FindFile_member_exts dir_map corrected_name exts)"

text \<open>
  The part of \<open>FindFile\<close> after the path correction: escape replacement, the lookup of the
  directory, the unchecked \<open>sub_members.find(corrected_dir)->second\<close>, the extension loop.
\<close>

definition FindFile_lookup ::
  "env \<Rightarrow> DirectoryTree \<Rightarrow> string \<Rightarrow> string \<Rightarrow> string list \<Rightarrow> failure + string" where
  "FindFile_lookup e tree corrected_dir name exts =
     (case replace_escape (escape_symbol e) name of
        None \<Rightarrow> Inl NoReturn
      | Some corrected_name \<Rightarrow>
          (case directories tree corrected_dir of
             None \<Rightarrow> Inr []
           | Some dir_original \<Rightarrow>
               (case sub_members tree corrected_dir of
                  None \<Rightarrow> Inl InvalidDereference
                | Some dir_map \<Rightarrow>
                    (case FindFile_member_exts dir_map corrected_name exts of
                       Some original \<Rightarrow>
                         Inr (MakePath (directory_path tree @ ''/'' @ dir_original) original)
                     | None \<Rightarrow> Inr []))))"

text \<open>
  The first part of \<open>FindFile\<close> on a tree, up to the path correction: what the request has
  become (nothing to search without an active translation; a canonical path without a
  slash, looked up at the root of the tree; or a directory and a name), with the log of
  \<open>MakeCanonical\<close>.
\<close>

datatype request =
    NoTranslation
  | AtRoot string
  | InDirectory string string

definition FindFile_request :: "env \<Rightarrow> string \<Rightarrow> string \<Rightarrow> bool \<Rightarrow> request \<times> log_entry list" where
  "FindFile_request e dir name translate =
     (if translate \<and> GetCurrentTranslationId e = [] then (NoTranslation, [])
      else
        let corrected_dir = Normalize e (if translate then GetTranslationDir e else dir);
            corrected_name = Normalize e
              (if translate then MakePath (MakePath (GetCurrentTranslationId e) dir) name
               else name);
            combined_path = MakePath corrected_dir corrected_name;
            canon_log = MakeCanonical_log (escape_symbol e) combined_path 1;
            canon = fst canon_log
        in (if combined_path \<noteq> canon then
              (case find_first_of CHR ''/'' canon of
                 None \<Rightarrow> AtRoot canon
               | Some pos \<Rightarrow> InDirectory (take pos canon) (drop (pos + 1) canon))
            else InDirectory corrected_dir corrected_name,
            snd canon_log))"

text \<open>
  \<open>FindFile(tree, dir, name, exts, translate)\<close> of the anonymous namespace, without the
  \<open>EMSCRIPTEN\<close> and \<open>_WIN32\<close> blocks. \<open>exts\<close> is the array up to its \<open>NULL\<close>.
\<close>

definition FindFile_tree_via ::
  "project_search \<Rightarrow> env \<Rightarrow> rtp_state \<Rightarrow> DirectoryTree \<Rightarrow> string \<Rightarrow> string \<Rightarrow> string list \<Rightarrow> bool
     \<Rightarrow> failure + (string \<times> rtp_state \<times> log_entry list)" where
  "FindFile_tree_via project e st tree dir name exts translate =
     (case FindFile_request e dir name translate of
        (NoTranslation, log) \<Rightarrow> Inr ([], st, log)
      | (AtRoot canon, log) \<Rightarrow> FindFile_canon_exts_via project e tree canon exts st log
      | (InDirectory corrected_dir corrected_name, log) \<Rightarrow>
          (case FindFile_lookup e tree corrected_dir corrected_name exts of
             Inl f \<Rightarrow> Inl f
           | Inr found \<Rightarrow> Inr (found, st, log)))"

section \<open>rtp_lookup\<close>

text \<open>The loop of the lambda \<open>normal_search\<close>; the lambda first clears \<open>is_rtp_asset\<close>.\<close>

fun normal_search_via ::
  "project_search \<Rightarrow> env \<Rightarrow> DirectoryTree list \<Rightarrow> string \<Rightarrow> string \<Rightarrow> string list
     \<Rightarrow> rtp_state \<Rightarrow> log_entry list \<Rightarrow> failure + (string \<times> rtp_state \<times> log_entry list)" where
  "normal_search_via project e [] dir name exts st log = Inr ([], st, log)"
| "normal_search_via project e (path # paths) dir name exts st log =
     (case FindFile_tree_via project e st path dir name exts False of
        Inl f \<Rightarrow> Inl f
      | Inr (found, st', l) \<Rightarrow>
          if found \<noteq> [] then Inr (found, st', log @ l)
          else normal_search_via project e paths dir name exts st' (log @ l))"

text \<open>
  The loop that erases from \<open>game_rtp\<close> every element \<open>std::find\<close> does not find among the
  candidates.
\<close>

fun erase_non_candidates :: "rtp_type list \<Rightarrow> rtp_type list \<Rightarrow> rtp_type list" where
  "erase_non_candidates candidates [] = []"
| "erase_non_candidates candidates (t # ts) =
     (if t \<notin> set candidates then erase_non_candidates candidates ts
      else t # erase_non_candidates candidates ts)"

text \<open>
  The detection block of \<open>rtp_lookup\<close> (the first \<open>if\<close>). \<open>std::find\<close> followed by one
  \<open>erase\<close> removes the first occurrence of the add-on, which is \<open>remove1\<close>.
\<close>

definition rtp_detect :: "env \<Rightarrow> rtp_state \<Rightarrow> string \<Rightarrow> string \<Rightarrow> rtp_state \<times> log_entry list" where
  "rtp_detect e st dir name =
     (if length (game_rtp st) \<noteq> 1 then
        let candidates = remove1 RPG2000_DonMiguelAddon (LookupAnyToRtp e dir name (EngineVersion e))
        in if candidates \<noteq> [] then
             let st' = (if game_rtp st = [] then st\<lparr>game_rtp := candidates\<rparr>
                        else st\<lparr>game_rtp := erase_non_candidates candidates (game_rtp st)\<rparr>)
             in (st', if length (game_rtp st') = 1 then [Debug (GameUsesRtp (game_rtp st' ! 0))]
                      else [])
           else (st, [])
      else (st, []))"

text \<open>
  The two nested loops "search across all RTP". The inner loop runs over the global
  \<open>game_rtp\<close> for one detected RTP; it yields \<open>Some\<close> path at the \<open>return\<close> inside the loop,
  and otherwise the flag as \<open>LookupRtpToRtp\<close> left it. A search on the tree that came back
  empty-handed but changed \<open>game_rtp\<close> (through the project-wide search) has invalidated
  the iterators of the loop.
\<close>

fun rtp_search_inner_via ::
  "project_search \<Rightarrow> env \<Rightarrow> RtpHitInfo \<Rightarrow> rtp_type list \<Rightarrow> string \<Rightarrow> string \<Rightarrow> string list
     \<Rightarrow> bool \<Rightarrow> rtp_state \<Rightarrow> log_entry list
     \<Rightarrow> failure + (string option \<times> bool \<times> rtp_state \<times> log_entry list)" where
  "rtp_search_inner_via project e rtp [] dir name exts is_rtp_asset st log =
     Inr (None, is_rtp_asset, st, log)"
| "rtp_search_inner_via project e rtp (g # gs) dir name exts is_rtp_asset st log =
     (case LookupRtpToRtp e dir name g (hit_type rtp) of
        (rtp_entry, written) \<Rightarrow>
          let flag = (case written of None \<Rightarrow> is_rtp_asset | Some b \<Rightarrow> b) in
          if rtp_entry \<noteq> [] then
            (case FindFile_tree_via project e st (hit_tree rtp) dir rtp_entry exts False of
               Inl f \<Rightarrow> Inl f
             | Inr (found, st', l) \<Rightarrow>
                 if found \<noteq> [] then Inr (Some found, True, st', log @ l)
                 else if game_rtp st' \<noteq> game_rtp st then Inl InvalidDereference
                 else rtp_search_inner_via project e rtp gs dir name exts flag st' (log @ l))
          else rtp_search_inner_via project e rtp gs dir name exts flag st log)"

fun rtp_search_via ::
  "project_search \<Rightarrow> env \<Rightarrow> RtpHitInfo list \<Rightarrow> string \<Rightarrow> string \<Rightarrow> string list
     \<Rightarrow> bool \<Rightarrow> rtp_state \<Rightarrow> log_entry list
     \<Rightarrow> failure + (string option \<times> bool \<times> rtp_state \<times> log_entry list)" where
  "rtp_search_via project e [] dir name exts is_rtp_asset st log =
     Inr (None, is_rtp_asset, st, log)"
| "rtp_search_via project e (rtp # rtps) dir name exts is_rtp_asset st log =
     (case rtp_search_inner_via project e rtp (game_rtp st) dir name exts is_rtp_asset st log of
        Inl f \<Rightarrow> Inl f
      | Inr (Some found, flag, st', l) \<Rightarrow> Inr (Some found, flag, st', l)
      | Inr (None, flag, st', l) \<Rightarrow> rtp_search_via project e rtps dir name exts flag st' l)"

text \<open>
  What \<open>rtp_lookup\<close> leaves behind: the returned string, the flag behind the reference
  parameter, the state and the log.
\<close>

record rtp_result =
  rtp_path :: string
  rtp_flag :: bool
  rtp_after :: rtp_state
  rtp_log :: "log_entry list"

text \<open>
  \<open>rtp_lookup(dir, name, exts, is_rtp_asset)\<close>; \<open>is_rtp_asset\<close> is the value the caller's
  variable holds on entry.
\<close>

definition rtp_lookup_via ::
  "project_search \<Rightarrow> env \<Rightarrow> rtp_state \<Rightarrow> string \<Rightarrow> string \<Rightarrow> string list \<Rightarrow> bool
     \<Rightarrow> failure + rtp_result" where
  "rtp_lookup_via project e st dir name exts is_rtp_asset =
     (case rtp_detect e st dir name of
        (st1, log) \<Rightarrow>
          if game_rtp st1 = [] then
            (case normal_search_via project e (search_paths st1) dir name exts st1 log of
               Inl f \<Rightarrow> Inl f
             | Inr (found, st2, l) \<Rightarrow>
                 Inr \<lparr>rtp_path = found, rtp_flag = False, rtp_after = st2, rtp_log = l\<rparr>)
          else
            (case rtp_search_via project e (detected_rtp st1) dir name exts is_rtp_asset st1 log of
               Inl f \<Rightarrow> Inl f
             | Inr (Some found, flag, st2, l) \<Rightarrow>
                 Inr \<lparr>rtp_path = found, rtp_flag = flag, rtp_after = st2, rtp_log = l\<rparr>
             | Inr (None, flag, st2, l) \<Rightarrow>
                 (case normal_search_via project e (search_paths st2) dir name exts st2 l of
                    Inl f \<Rightarrow> Inl f
                  | Inr (found, st3, l') \<Rightarrow>
                      Inr \<lparr>rtp_path = found, rtp_flag = False, rtp_after = st3,
                           rtp_log = l'\<rparr>)))"

section \<open>The top-level FindFile\<close>

text \<open>
  The warning block of the top-level \<open>FindFile\<close> (\<open>if (is_rtp_asset) ...\<close>), with the
  values \<open>rtp_lookup\<close> produced as arguments. The missing-asset message keeps whether
  \<open>search_paths\<close> is empty, which selects its wording.
\<close>

definition rtp_warning ::
  "rtp_state \<Rightarrow> string \<Rightarrow> string \<Rightarrow> bool \<Rightarrow> string \<Rightarrow> bool \<Rightarrow> rtp_state \<times> log_entry list" where
  "rtp_warning st dir name is_audio_asset found is_rtp_asset =
     (if is_rtp_asset then
        (if found \<noteq> [] \<and> game_has_full_package_flag st
              \<and> \<not> warning_broken_rtp_game_shown st \<and> \<not> is_audio_asset then
           (st\<lparr>warning_broken_rtp_game_shown := True\<rparr>, [Warning ClaimsNoRtpButUsesIt])
         else if found = [] \<and> \<not> game_has_full_package_flag st \<and> \<not> is_audio_asset then
           (st, [Warning (MissingRtpAsset dir name (search_paths st = []))])
         else (st, []))
      else (st, []))"

record find_result =
  found_path :: string
  state_after :: rtp_state
  find_log :: "log_entry list"

text \<open>
  \<open>FindFile(dir, name, exts, tryTranslate)\<close>. \<open>game_directory_tree\<close> is the global the
  function reads through \<open>GetDirectoryTree()\<close> and dereferences unchecked; \<open>uninitialised\<close>
  is the value the local \<open>bool is_rtp_asset\<close> happens to hold before \<open>rtp_lookup\<close>.
\<close>

definition FindFile_via ::
  "project_search \<Rightarrow> env \<Rightarrow> DirectoryTree option \<Rightarrow> rtp_state \<Rightarrow> bool \<Rightarrow> string \<Rightarrow> string
     \<Rightarrow> string list \<Rightarrow> bool \<Rightarrow> failure + find_result" where
  "FindFile_via project e game_directory_tree st uninitialised dir name exts tryTranslate =
     (case game_directory_tree of
        None \<Rightarrow> Inl InvalidDereference
      | Some tree \<Rightarrow>
          (case (if tryTranslate then FindFile_tree_via project e st tree dir name exts True
                 else Inr ([], st, [])) of
             Inl f \<Rightarrow> Inl f
           | Inr (translated, st1, log1) \<Rightarrow>
               if tryTranslate \<and> translated \<noteq> [] then
                 Inr \<lparr>found_path = translated, state_after = st1, find_log = log1\<rparr>
               else
                 (case FindFile_tree_via project e st1 tree dir name exts False of
                    Inl f \<Rightarrow> Inl f
                  | Inr (direct, st2, log2) \<Rightarrow>
                      if direct \<noteq> [] then
                        Inr \<lparr>found_path = direct, state_after = st2, find_log = log1 @ log2\<rparr>
                      else if \<not> disable_rtp st2 then
                        (case rtp_lookup_via project e st2 (Normalize e dir) (Normalize e name)
                                exts uninitialised of
                           Inl f \<Rightarrow> Inl f
                         | Inr r \<Rightarrow>
                             let lcase = Normalize e dir;
                                 is_audio_asset = (lcase = ''music'' \<or> lcase = ''sound'');
                                 warned = rtp_warning (rtp_after r) dir name is_audio_asset
                                            (rtp_path r) (rtp_flag r)
                             in Inr \<lparr>found_path = rtp_path r, state_after = fst warned,
                                     find_log = log1 @ log2 @ rtp_log r @ snd warned
                                       @ (if rtp_path r = [] then [Debug (CannotFind dir name)]
                                          else [])\<rparr>)
                      else
                        Inr \<lparr>found_path = [], state_after = st2,
                             find_log = log1 @ log2 @ [Debug (CannotFind dir name)]\<rparr>)))"

text \<open>
  The project-wide \<open>FindDefault(dir, name)\<close>: the top-level \<open>FindFile\<close> with the table
  \<open>no_exts\<close>, which holds the empty extension. A search with that table never reaches
  \<open>FindDefault(dir, name)\<close> again: the canonical path it hands to \<open>FindDefault(tree, name)\<close>
  has one component. The search given to it here is therefore never called (lemma
  \<open>FindFile_via_no_exts\<close>).
\<close>

definition no_further_search :: project_search where
  "no_further_search dir name st = Inl NoReturn"

definition FindDefault_dir :: "env \<Rightarrow> DirectoryTree option \<Rightarrow> bool \<Rightarrow> project_search" where
  "FindDefault_dir e game_directory_tree uninitialised dir name st =
     (case FindFile_via no_further_search e game_directory_tree st uninitialised dir name [[]]
             False of
        Inl f \<Rightarrow> Inl f
      | Inr r \<Rightarrow> Inr (found_path r, state_after r, find_log r))"

text \<open>The functions of the code: the searches above with the project-wide search.\<close>

definition FindFile_tree ::
  "env \<Rightarrow> DirectoryTree option \<Rightarrow> bool \<Rightarrow> rtp_state \<Rightarrow> DirectoryTree \<Rightarrow> string \<Rightarrow> string
     \<Rightarrow> string list \<Rightarrow> bool \<Rightarrow> failure + (string \<times> rtp_state \<times> log_entry list)" where
  "FindFile_tree e game_directory_tree uninitialised st tree dir name exts translate =
     FindFile_tree_via (FindDefault_dir e game_directory_tree uninitialised) e st tree dir name
       exts translate"

definition rtp_lookup ::
  "env \<Rightarrow> DirectoryTree option \<Rightarrow> bool \<Rightarrow> rtp_state \<Rightarrow> string \<Rightarrow> string \<Rightarrow> string list \<Rightarrow> bool
     \<Rightarrow> failure + rtp_result" where
  "rtp_lookup e game_directory_tree uninitialised st dir name exts is_rtp_asset =
     rtp_lookup_via (FindDefault_dir e game_directory_tree uninitialised) e st dir name exts
       is_rtp_asset"

definition FindFile ::
  "env \<Rightarrow> DirectoryTree option \<Rightarrow> rtp_state \<Rightarrow> bool \<Rightarrow> string \<Rightarrow> string \<Rightarrow> string list \<Rightarrow> bool
     \<Rightarrow> failure + find_result" where
  "FindFile e game_directory_tree st uninitialised dir name exts tryTranslate =
     FindFile_via (FindDefault_dir e game_directory_tree uninitialised) e game_directory_tree st
       uninitialised dir name exts tryTranslate"

text \<open>
  A session of lookups: the states the session goes through, the initial one first. The
  session ends where a call does not return.
\<close>

fun rtp_session ::
  "env \<Rightarrow> DirectoryTree option \<Rightarrow> bool \<Rightarrow> rtp_state \<Rightarrow> (string \<times> string \<times> string list) list
     \<Rightarrow> rtp_state list" where
  "rtp_session e game u st [] = [st]"
| "rtp_session e game u st ((dir, name, exts) # requests) =
     st # (case rtp_lookup e game u st dir name exts False of
             Inl f \<Rightarrow> []
           | Inr r \<Rightarrow> rtp_session e game u (rtp_after r) requests)"

text \<open>
  A session of top-level requests with one extension table and translation allowed, as
  \<open>FindImage\<close> issues them: the final state and the concatenated log.
\<close>

fun FindFile_session ::
  "env \<Rightarrow> DirectoryTree option \<Rightarrow> rtp_state \<Rightarrow> bool \<Rightarrow> string list \<Rightarrow> (string \<times> string) list
     \<Rightarrow> failure + (rtp_state \<times> log_entry list)" where
  "FindFile_session e tree st uninitialised exts [] = Inr (st, [])"
| "FindFile_session e tree st uninitialised exts ((dir, name) # requests) =
     (case FindFile e tree st uninitialised dir name exts True of
        Inl f \<Rightarrow> Inl f
      | Inr r \<Rightarrow>
          (case FindFile_session e tree (state_after r) uninitialised exts requests of
             Inl f \<Rightarrow> Inl f
           | Inr (st', log) \<Rightarrow> Inr (st', find_log r @ log)))"

section \<open>Scanning directories\<close>

text \<open>
  The file system as \<open>Platform::File\<close> and \<open>Platform::Directory\<close> show it: a path names
  nothing, a file, or a directory. A directory has the flag whether \<open>Platform::Directory\<close>
  can open it and the entries in the order \<open>Read()\<close> delivers them, each with the value the
  loop computes for \<open>is_directory\<close> (from the entry type, or from \<open>IsDirectory\<close> once the
  static \<open>has_fast_dir_stat\<close> is off).
\<close>

datatype fsnode = FsFile | FsDir bool "(string \<times> bool) list"

type_synonym platform = "string \<Rightarrow> fsnode option"

text \<open>The enum \<open>FileFinder::Mode\<close>; \<open>ALL\<close> is a binder of HOL's syntax, hence \<open>ALL_Mode\<close>.\<close>

datatype Mode = FILES | DIRECTORIES | ALL_Mode | RECURSIVE

text \<open>
  \<open>string_map\<close> where the code iterates over it: an association list with one pair for
  each key, \<open>map_of\<close> is the lookup, \<open>AList.update\<close> is \<open>m[key] = value\<close>. The typedef
  is in \<open>filefinder.h\<close> (not among the sources); the model iterates in the order of first
  insertion.
\<close>

type_synonym string_map = "(string \<times> string) list"

text \<open>\<open>m.insert(first, last)\<close>: a pair goes in only when its key is not there yet.\<close>

fun insert_range :: "string_map \<Rightarrow> string_map \<Rightarrow> string_map" where
  "insert_range m [] = m"
| "insert_range m ((k, v) # rest) =
     insert_range (if map_of m k = None then m @ [(k, v)] else m) rest"

record Directory =
  base :: string
  member_files :: string_map
  member_directories :: string_map

text \<open>
  The \<open>while (dir.Read())\<close> loop of \<open>GetDirectoryMembers\<close> over the entries, with \<open>result\<close>
  and the log. \<open>recurse\<close> is the call \<open>GetDirectoryMembers(path, RECURSIVE, parent)\<close> the
  loop makes for a sub-directory, on the path \<open>MakePath(path, name)\<close>.
\<close>

fun GetDirectoryMembers_scan ::
  "(string \<Rightarrow> string \<Rightarrow> failure + (Directory \<times> log_entry list)) \<Rightarrow> env \<Rightarrow> string \<Rightarrow> Mode
     \<Rightarrow> string \<Rightarrow> (string \<times> bool) list \<Rightarrow> Directory \<Rightarrow> log_entry list
     \<Rightarrow> failure + (Directory \<times> log_entry list)" where
  "GetDirectoryMembers_scan recurse e path m parent [] result log = Inr (result, log)"
| "GetDirectoryMembers_scan recurse e path m parent ((name, is_directory) # entries) result log =
     (if name = ''.'' \<or> name = ''..'' then
        GetDirectoryMembers_scan recurse e path m parent entries result log
      else if m = FILES \<and> is_directory then
        GetDirectoryMembers_scan recurse e path m parent entries result log
      else if m = DIRECTORIES \<and> \<not> is_directory then
        GetDirectoryMembers_scan recurse e path m parent entries result log
      else if m = RECURSIVE then
        (if is_directory then
           (case recurse (MakePath path name) (MakePath parent name) of
              Inl f \<Rightarrow> Inl f
            | Inr (rdir, rlog) \<Rightarrow>
                GetDirectoryMembers_scan recurse e path m parent entries
                  (result\<lparr>member_files := insert_range (member_files result) (member_files rdir),
                          member_directories :=
                            insert_range (member_directories result) (member_directories rdir)\<rparr>)
                  (log @ rlog))
         else
           GetDirectoryMembers_scan recurse e path m parent entries
             (result\<lparr>member_files :=
                AList.update (Normalize e (MakePath parent name)) (MakePath parent name)
                  (member_files result)\<rparr>)
             log)
      else
        (let name_norm = Normalize e name in
         if is_directory then
           GetDirectoryMembers_scan recurse e path m parent entries
             (result\<lparr>member_directories := AList.update name_norm name (member_directories result)\<rparr>)
             (if map_of (member_directories result) name_norm \<noteq> None
              then log @ [Warning (FolderTwice name), Warning FolderTwiceHint] else log)
         else
           GetDirectoryMembers_scan recurse e path m parent entries
             (result\<lparr>member_files := AList.update name_norm name (member_files result)\<rparr>) log))"

text \<open>
  \<open>FileFinder::GetDirectoryMembers(path, m, parent)\<close>: the two \<open>assert\<close>s (as compiled
  without \<open>NDEBUG\<close>), the opening of the directory, the loop. The recursion of the mode
  \<open>RECURSIVE\<close> follows the paths the platform resolves and need not end; it is cut at
  \<open>depth\<close> nested calls, where the value is \<open>NoReturn\<close>.
\<close>

primrec GetDirectoryMembers ::
  "nat \<Rightarrow> env \<Rightarrow> platform \<Rightarrow> string \<Rightarrow> Mode \<Rightarrow> string
     \<Rightarrow> failure + (Directory \<times> log_entry list)" where
  "GetDirectoryMembers 0 e pf path m parent = Inl NoReturn"
| "GetDirectoryMembers (Suc depth) e pf path m parent =
     (case pf path of
        None \<Rightarrow> Inl AssertionFailed
      | Some FsFile \<Rightarrow> Inl AssertionFailed
      | Some (FsDir readable entries) \<Rightarrow>
          if \<not> readable then
            Inr (\<lparr>base = path, member_files = [], member_directories = []\<rparr>,
                 [Debug (ErrorOpeningDir path)])
          else
            GetDirectoryMembers_scan
              (\<lambda>sub_path sub_parent. GetDirectoryMembers depth e pf sub_path RECURSIVE sub_parent)
              e path m parent entries
              \<lparr>base = path, member_files = [], member_directories = []\<rparr> [])"

text \<open>
  The loop of \<open>CreateDirectoryTree\<close> that fills \<open>sub_members\<close>: one recursive scan for each
  pair of \<open>mem.directories\<close>, of the path \<open>MakePath(directory_path, name on disk)\<close>.
\<close>

fun CreateDirectoryTree_sub ::
  "nat \<Rightarrow> env \<Rightarrow> platform \<Rightarrow> string \<Rightarrow> string_map
     \<Rightarrow> (string \<rightharpoonup> (string \<rightharpoonup> string)) \<Rightarrow> log_entry list
     \<Rightarrow> failure + ((string \<rightharpoonup> (string \<rightharpoonup> string)) \<times> log_entry list)" where
  "CreateDirectoryTree_sub depth e pf p [] subs log = Inr (subs, log)"
| "CreateDirectoryTree_sub depth e pf p ((key, original) # rest) subs log =
     (case GetDirectoryMembers depth e pf (MakePath p original) RECURSIVE [] of
        Inl f \<Rightarrow> Inl f
      | Inr (sub, l) \<Rightarrow>
          CreateDirectoryTree_sub depth e pf p rest
            (subs(key \<mapsto> map_of (member_files sub))) (log @ l))"

text \<open>
  \<open>FileFinder::CreateDirectoryTree(p, mode)\<close>. The two copying loops store every pair of
  the scan in the tree's maps. A null \<open>shared_ptr\<close> is \<open>None\<close>.
\<close>

definition CreateDirectoryTree ::
  "nat \<Rightarrow> env \<Rightarrow> platform \<Rightarrow> string \<Rightarrow> Mode
     \<Rightarrow> failure + (DirectoryTree option \<times> log_entry list)" where
  "CreateDirectoryTree depth e pf p mode =
     (case pf p of
        Some (FsDir readable entries) \<Rightarrow>
          (let recursive = (mode = RECURSIVE);
               mode' = (if mode = RECURSIVE then ALL_Mode else mode) in
           case GetDirectoryMembers depth e pf p mode' [] of
             Inl f \<Rightarrow> Inl f
           | Inr (mem, log) \<Rightarrow>
               let tree = \<lparr>directory_path = p,
                           files = fold (\<lambda>i t. t(fst i \<mapsto> snd i)) (member_files mem) Map.empty,
                           directories =
                             fold (\<lambda>i t. t(fst i \<mapsto> snd i)) (member_directories mem) Map.empty,
                           sub_members = Map.empty\<rparr>
               in if recursive then
                    (case CreateDirectoryTree_sub depth e pf p (member_directories mem)
                            Map.empty log of
                       Inl f \<Rightarrow> Inl f
                     | Inr (subs, log') \<Rightarrow> Inr (Some (tree\<lparr>sub_members := subs\<rparr>), log'))
                  else Inr (Some tree, log))
      | _ \<Rightarrow> Inr (None, []))"

section \<open>The lookups and the scan as the specification words them\<close>

text \<open>
  Extensions without a path delimiter, as all the extension tables of the code are.
\<close>

definition plain_exts :: "string \<Rightarrow> string list \<Rightarrow> bool" where
  "plain_exts escape exts = (\<forall>c \<in> set exts. \<forall>t \<in> set c. \<not> is_delimiter escape t)"

text \<open>
  The index lookup of the resolve operation (section 4.4): the directory by its key, then
  each candidate extension in order, the first one present in the directory's members
  giving the path of the base, the directory's name on disk and the file's name on disk.
  The lookup at the root of a tree does the same with the tree's file map.
\<close>

definition first_present :: "(string \<rightharpoonup> string) \<Rightarrow> string \<Rightarrow> string list \<Rightarrow> string option" where
  "first_present members name_key exts =
     (case find (\<lambda>c. members (name_key @ c) \<noteq> None) exts of
        None \<Rightarrow> None
      | Some c \<Rightarrow> members (name_key @ c))"

definition index_lookup :: "DirectoryTree \<Rightarrow> string \<Rightarrow> string \<Rightarrow> string list \<Rightarrow> string" where
  "index_lookup tree dir_key name_key exts =
     (case directories tree dir_key of
        None \<Rightarrow> []
      | Some dir_original \<Rightarrow>
          (case sub_members tree dir_key of
             None \<Rightarrow> []
           | Some members \<Rightarrow>
               (case first_present members name_key exts of
                  None \<Rightarrow> []
                | Some original \<Rightarrow>
                    MakePath (directory_path tree @ ''/'' @ dir_original) original)))"

definition root_entry :: "env \<Rightarrow> DirectoryTree \<Rightarrow> string \<Rightarrow> string" where
  "root_entry e tree name =
     (case files tree (Normalize e name) of
        None \<Rightarrow> []
      | Some original \<Rightarrow> MakePath (directory_path tree) original)"

definition root_lookup :: "env \<Rightarrow> DirectoryTree \<Rightarrow> string \<Rightarrow> string list \<Rightarrow> string" where
  "root_lookup e tree canon exts =
     (case find (\<lambda>c. root_entry e tree (canon @ c) \<noteq> []) exts of
        None \<Rightarrow> []
      | Some c \<Rightarrow> root_entry e tree (canon @ c))"

text \<open>
  What one tree gives for a request, by the request \<open>FindFile\<close> has made of the directory
  and the name: nothing without an active translation, the root lookup, or the index
  lookup with the name in which every escape symbol has become a slash.
\<close>

definition request_lookup :: "env \<Rightarrow> DirectoryTree \<Rightarrow> request \<Rightarrow> string list \<Rightarrow> string" where
  "request_lookup e tree r exts =
     (case r of
        NoTranslation \<Rightarrow> []
      | AtRoot canon \<Rightarrow> root_lookup e tree canon exts
      | InDirectory dir_key name \<Rightarrow>
          (case replace_escape (escape_symbol e) name of
             None \<Rightarrow> []
           | Some name_key \<Rightarrow> index_lookup tree dir_key name_key exts))"


text \<open>
  The names a scan of one directory in mode \<open>FILES\<close>, \<open>DIRECTORIES\<close> or \<open>ALL\<close> indexes, in
  scan order: the sub-directories and the files, without \<open>.\<close> and \<open>..\<close>.
\<close>

definition scanned_directories :: "Mode \<Rightarrow> (string \<times> bool) list \<Rightarrow> string list" where
  "scanned_directories m entries =
     (if m = FILES then []
      else map fst (filter (\<lambda>i. fst i \<noteq> ''.'' \<and> fst i \<noteq> ''..'' \<and> snd i) entries))"

definition scanned_files :: "Mode \<Rightarrow> (string \<times> bool) list \<Rightarrow> string list" where
  "scanned_files m entries =
     (if m = DIRECTORIES then []
      else map fst (filter (\<lambda>i. fst i \<noteq> ''.'' \<and> fst i \<noteq> ''..'' \<and> \<not> snd i) entries))"

text \<open>
  Last write wins: the index of a list of names maps a key to the last name with that key.
  The collision diagnostics: two warnings for each name whose key an earlier name had.
\<close>

definition last_write_index :: "env \<Rightarrow> string list \<Rightarrow> (string \<rightharpoonup> string)" where
  "last_write_index e names = map_of (rev (map (\<lambda>n. (Normalize e n, n)) names))"

fun collision_log :: "env \<Rightarrow> string set \<Rightarrow> string list \<Rightarrow> log_entry list" where
  "collision_log e keys [] = []"
| "collision_log e keys (n # names) =
     (if Normalize e n \<in> keys then [Warning (FolderTwice n), Warning FolderTwiceHint] else [])
       @ collision_log e (insert (Normalize e n) keys) names"

text \<open>
  The index of a scan in mode \<open>RECURSIVE\<close>, entry by entry: a file takes its key whatever
  the key held; the files of a sub-directory take only the keys that are still free.
\<close>

fun recursive_step ::
  "(string \<Rightarrow> string \<Rightarrow> (string \<rightharpoonup> string)) \<Rightarrow> env \<Rightarrow> string \<Rightarrow> string \<Rightarrow> string \<times> bool
     \<Rightarrow> (string \<rightharpoonup> string) \<Rightarrow> (string \<rightharpoonup> string)" where
  "recursive_step sub e path parent (name, is_directory) index =
     (if name = ''.'' \<or> name = ''..'' then index
      else if is_directory then sub (MakePath path name) (MakePath parent name) ++ index
      else index(Normalize e (MakePath parent name) \<mapsto> MakePath parent name))"

primrec recursive_index ::
  "nat \<Rightarrow> env \<Rightarrow> platform \<Rightarrow> string \<Rightarrow> string \<Rightarrow> (string \<rightharpoonup> string)" where
  "recursive_index 0 e pf path parent = Map.empty"
| "recursive_index (Suc depth) e pf path parent =
     (case pf path of
        Some (FsDir readable entries) \<Rightarrow>
          if readable then
            fold (recursive_step (\<lambda>sub_path sub_parent.
                                    recursive_index depth e pf sub_path sub_parent)
                    e path parent) entries Map.empty
          else Map.empty
      | _ \<Rightarrow> Map.empty)"

section \<open>Conditions on requests and searches\<close>

text \<open>
  A request that \<open>FindFile\<close> on a tree answers from the tree alone: the extensions have
  no delimiter, or the request is not one at the root of the tree.
\<close>

definition stays_in_tree :: "env \<Rightarrow> string \<Rightarrow> string \<Rightarrow> string list \<Rightarrow> bool \<Rightarrow> bool" where
  "stays_in_tree e dir name exts translate =
     (plain_exts (escape_symbol e) exts
      \<or> (case fst (FindFile_request e dir name translate) of AtRoot canon \<Rightarrow> False | _ \<Rightarrow> True))"

text \<open>
  A directory the scan in mode \<open>RECURSIVE\<close> gets through within \<open>depth\<close> nested calls:
  the path names a directory, and every sub-directory it lists is such a directory again,
  under the path \<open>MakePath\<close> makes of the two.
\<close>

primrec scannable :: "nat \<Rightarrow> platform \<Rightarrow> string \<Rightarrow> bool" where
  "scannable 0 pf path = False"
| "scannable (Suc depth) pf path =
     (case pf path of
        Some (FsDir readable entries) \<Rightarrow>
          \<not> readable
          \<or> list_all (\<lambda>i. fst i = ''.'' \<or> fst i = ''..'' \<or> \<not> snd i
                          \<or> scannable depth pf (MakePath path (fst i))) entries
      | _ \<Rightarrow> False)"


text \<open>
  A state without the add-on in \<open>game_rtp\<close>, and a project-wide search that keeps the
  add-on out.
\<close>

definition addon_out :: "rtp_state \<Rightarrow> bool" where
  "addon_out st = (RPG2000_DonMiguelAddon \<notin> set (game_rtp st))"

definition keeps_addon_out :: "project_search \<Rightarrow> bool" where
  "keeps_addon_out project =
     (\<forall>dir name st found st' log.
        project dir name st = Inr (found, st', log) \<longrightarrow> addon_out st \<longrightarrow> addon_out st')"

section \<open>Example inputs\<close>

text \<open>
  Concrete collaborators, trees, states and file systems at which the theorems below are
  evaluated: an environment with the backslash as escape symbol, the identity as
  normalization and no active translation, and the same with the translation \<open>de\<close> in
  the directory \<open>language\<close>; table lookups for the assets \<open>A\<close>, \<open>B\<close> and \<open>C\<close>; an
  installed RTP with \<open>Picture/Hero.png\<close>, and the same tree under a base path with a
  backslash; a project with the file \<open>Secret\<close> and the
  folder \<open>Music\<close>; a project with pictures and a translation overlay; a normalization
  that folds the case of ASCII letters; a file system with the project on it.
\<close>

definition env_example ::
  "(string \<Rightarrow> string \<Rightarrow> int \<Rightarrow> rtp_type list)
     \<Rightarrow> (string \<Rightarrow> string \<Rightarrow> rtp_type \<Rightarrow> rtp_type \<Rightarrow> string \<times> bool option) \<Rightarrow> env" where
  "env_example any_to_rtp rtp_to_rtp =
     \<lparr>escape_symbol = [backslash], Normalize = (\<lambda>s. s), GetCurrentTranslationId = [],
      GetTranslationDir = [], EngineVersion = 2000,
      LookupAnyToRtp = any_to_rtp, LookupRtpToRtp = rtp_to_rtp\<rparr>"

definition oracle_AB :: "string \<Rightarrow> string \<Rightarrow> int \<Rightarrow> rtp_type list" where
  "oracle_AB dir name version =
     (if name = ''A'' then [RtpVariant 1, RtpVariant 2]
      else if name = ''B'' then [RtpVariant 2, RtpVariant 3]
      else if name = ''C'' then [RtpVariant 3]
      else [])"

definition oracle_addon :: "string \<Rightarrow> string \<Rightarrow> int \<Rightarrow> rtp_type list" where
  "oracle_addon dir name version =
     (if name = ''A'' then [RPG2000_DonMiguelAddon, RtpVariant 1, RtpVariant 2]
      else [RtpVariant 2, RPG2000_DonMiguelAddon])"

definition oracle_one :: "string \<Rightarrow> string \<Rightarrow> int \<Rightarrow> rtp_type list" where
  "oracle_one dir name version = [RtpVariant 1]"

definition no_translation ::
  "string \<Rightarrow> string \<Rightarrow> rtp_type \<Rightarrow> rtp_type \<Rightarrow> string \<times> bool option" where
  "no_translation dir name from_rtp to_rtp = ([], None)"

definition same_name ::
  "string \<Rightarrow> string \<Rightarrow> rtp_type \<Rightarrow> rtp_type \<Rightarrow> string \<times> bool option" where
  "same_name dir name from_rtp to_rtp = (name, Some True)"


definition rtp_tree_example :: DirectoryTree where
  "rtp_tree_example =
     \<lparr>directory_path = ''/rtp'', files = Map.empty,
      directories = [''picture'' \<mapsto> ''Picture''],
      sub_members = [''picture'' \<mapsto> [''hero.png'' \<mapsto> ''Hero.png'']]\<rparr>"


definition project_example :: DirectoryTree where
  "project_example =
     \<lparr>directory_path = ''/game'', files = [''secret'' \<mapsto> ''Secret''],
      directories = [''music'' \<mapsto> ''Music''],
      sub_members = [''music'' \<mapsto> [''town.ogg'' \<mapsto> ''Town.ogg'']]\<rparr>"


definition rtp_enabled :: rtp_state where
  "rtp_enabled = rtp_state_init\<lparr>disable_rtp := False\<rparr>"

definition rtp_installed :: rtp_state where
  "rtp_installed =
     rtp_enabled\<lparr>search_paths := [rtp_tree_example],
                 detected_rtp := [\<lparr>hit_type = RtpVariant 1, hit_name = ''RTP'',
                                   hit_tree = rtp_tree_example, hits = 1, hit_max = 1\<rparr>]\<rparr>"

definition lower_char :: "char \<Rightarrow> char" where
  "lower_char c =
     (case map_of (zip ''ABCDEFGHIJKLMNOPQRSTUVWXYZ'' ''abcdefghijklmnopqrstuvwxyz'') c of
        Some l \<Rightarrow> l
      | None \<Rightarrow> c)"

definition env_lower :: env where
  "env_lower = (env_example oracle_one same_name)\<lparr>Normalize := map lower_char\<rparr>"

definition disk_example :: platform where
  "disk_example path =
     (if path = ''/game'' then
        Some (FsDir True [(''.'', True), (''..'', True), (''Music'', True), (''Secret'', False)])
      else if path = ''/game/Music'' then Some (FsDir True [(''Town.ogg'', False)])
      else if path = ''/game/Music/Town.ogg'' then Some FsFile
      else if path = ''/game/Secret'' then Some FsFile
      else None)"

definition disk_colliding :: platform where
  "disk_colliding path =
     (if path = ''/game'' then
        Some (FsDir True [(''Music'', True), (''Hero.png'', False), (''MUSIC'', True),
                          (''HERO.PNG'', False)])
      else if path = ''/game/Music'' then Some (FsDir True [(''a.ogg'', False)])
      else if path = ''/game/MUSIC'' then Some (FsDir True [(''A.ogg'', False)])
      else None)"
section \<open>Canonical paths\<close>

lemma replace_idem: "replace a b (replace a b s) = replace a b s"
  by (simp add: replace_def)

lemma replace_append: "replace a b (s @ t) = replace a b s @ replace a b t"
  by (simp add: replace_def)

lemma replace_empty_iff: "replace a b s = [] \<longleftrightarrow> s = []"
  by (simp add: replace_def)

lemma replace_absent: "a \<notin> set s \<Longrightarrow> replace a b s = s"
  by (induction s) (auto simp: replace_def)

lemma MakePath_replace:
  "ret \<noteq> [] \<Longrightarrow> MakePath (replace backslash CHR ''/'' ret) s
          = replace backslash CHR ''/'' (ret @ ''/'' @ s)"
  by (simp add: MakePath_def replace_append replace_idem replace_empty_iff)

lemma join_MakePath_nonempty:
  "\<forall>s\<in>set ss. s \<noteq> [] \<Longrightarrow> ret \<noteq> [] \<Longrightarrow>
   join_MakePath (replace backslash CHR ''/'' ret) ss
     = replace backslash CHR ''/'' (join_segments (ret # ss))"
proof (induction ss arbitrary: ret)
  case Nil
  then show ?case by simp
next
  case (Cons s ss)
  have "ret @ ''/'' @ s \<noteq> []" by simp
  from Cons.IH [OF _ this] Cons.prems(1)
  have "join_MakePath (replace backslash CHR ''/'' (ret @ ''/'' @ s)) ss
     = replace backslash CHR ''/'' (join_segments ((ret @ ''/'' @ s) # ss))" by simp
  moreover have "join_segments ((ret @ ''/'' @ s) # ss) = join_segments (ret # s # ss)"
    by (cases ss) simp_all
  ultimately show ?case
    using MakePath_replace [OF Cons.prems(2), of s] by simp
qed

lemma join_MakePath_segments:
  assumes "\<forall>s\<in>set ss. s \<noteq> []"
  shows "join_MakePath [] ss = replace backslash CHR ''/'' (join_segments ss)"
proof (cases ss)
  case Nil
  then show ?thesis by (simp add: replace_def)
next
  case (Cons s ss')
  then have "s \<noteq> []" and "\<forall>t\<in>set ss'. t \<noteq> []" using assms by simp_all
  from join_MakePath_nonempty [OF this(2) this(1)] Cons show ?thesis
    by (simp add: MakePath_def)
qed

text \<open>
  The loop of the code and the fold of the specification agree step by step; the fold's
  counter of clamped ascents is the number of diagnostics the loop appends.
\<close>

lemma MakeCanonical_loop_fold:
  "canonical_fold comps kept d k = (segs, n) \<Longrightarrow>
   k \<le> n \<and> MakeCanonical_loop path comps (rev kept) d log
           = (segs, log @ replicate (n - k) (Debug (PathTraversal path)))"
proof (induction comps arbitrary: kept d k log)
  case Nil
  then show ?case by auto
next
  case (Cons c comps)
  show ?case
  proof (cases "c = [] \<or> c = ''.''")
    case True
    with Cons.prems have "canonical_fold comps kept d k = (segs, n)" by auto
    from Cons.IH [OF this, of log] True show ?thesis by auto
  next
    case plain: False
    show ?thesis
    proof (cases "c = ''..''")
      case False
      with plain Cons.prems have "canonical_fold comps (c # kept) d k = (segs, n)" by simp
      from Cons.IH [OF this, of log] False plain show ?thesis by simp
    next
      case dots: True
      show ?thesis
      proof (cases kept)
        case (Cons k' ks)
        with dots Cons.prems have "canonical_fold comps ks d k = (segs, n)" by simp
        from Cons.IH [OF this, of log] dots Cons show ?thesis by (simp add: butlast_append)
      next
        case Nil
        show ?thesis
        proof (cases "d > 0")
          case True
          with dots Nil Cons.prems have "canonical_fold comps [] (d - 1) k = (segs, n)" by simp
          from Cons.IH [OF this, of log] dots Nil True show ?thesis by simp
        next
          case False
          with dots Nil Cons.prems have f: "canonical_fold comps [] d (Suc k) = (segs, n)"
            by simp
          from Cons.IH [OF f, of "log @ [Debug (PathTraversal path)]"]
          have le: "Suc k \<le> n"
            and l: "MakeCanonical_loop path comps [] d (log @ [Debug (PathTraversal path)])
              = (segs, (log @ [Debug (PathTraversal path)])
                         @ replicate (n - Suc k) (Debug (PathTraversal path)))"
            by simp_all
          from le have "n - k = Suc (n - Suc k)" by arith
          then have "replicate (n - k) (Debug (PathTraversal path))
              = Debug (PathTraversal path) # replicate (n - Suc k) (Debug (PathTraversal path))"
            by simp
          with l le dots Nil False show ?thesis by simp
        qed
      qed
    qed
  qed
qed

lemma canonical_fold_subset:
  "canonical_fold comps kept d k = (segs, n) \<Longrightarrow> set segs \<subseteq> set comps \<union> set kept"
proof (induction comps arbitrary: kept d k)
  case Nil
  then show ?case by auto
next
  case (Cons c comps)
  show ?case
  proof (cases "c = [] \<or> c = ''.''")
    case True
    with Cons.prems have "canonical_fold comps kept d k = (segs, n)" by auto
    from Cons.IH [OF this] show ?thesis by auto
  next
    case plain: False
    show ?thesis
    proof (cases "c = ''..''")
      case False
      with plain Cons.prems have "canonical_fold comps (c # kept) d k = (segs, n)" by simp
      from Cons.IH [OF this] show ?thesis by auto
    next
      case dots: True
      show ?thesis
      proof (cases kept)
        case (Cons k' ks)
        with dots Cons.prems have "canonical_fold comps ks d k = (segs, n)" by simp
        from Cons.IH [OF this] Cons show ?thesis by auto
      next
        case Nil
        show ?thesis
        proof (cases "d > 0")
          case True
          with dots Nil Cons.prems have "canonical_fold comps [] (d - 1) k = (segs, n)" by simp
          from Cons.IH [OF this] show ?thesis by auto
        next
          case False
          with dots Nil Cons.prems have f: "canonical_fold comps [] d (Suc k) = (segs, n)"
            by simp
          from Cons.IH [OF f] show ?thesis by auto
        qed
      qed
    qed
  qed
qed

lemma canonical_fold_nonempty:
  "canonical_fold comps kept d k = (segs, n) \<Longrightarrow> \<forall>s\<in>set kept. s \<noteq> [] \<Longrightarrow>
   \<forall>s\<in>set segs. s \<noteq> []"
proof (induction comps arbitrary: kept d k)
  case Nil
  then show ?case by auto
next
  case (Cons c comps)
  show ?case
  proof (cases "c = [] \<or> c = ''.''")
    case True
    then show ?thesis using Cons by simp
  next
    case plain: False
    show ?thesis
    proof (cases "c = ''..''")
      case False
      with plain Cons.prems have "canonical_fold comps (c # kept) d k = (segs, n)" by simp
      from Cons.IH [OF this] plain Cons.prems(2) show ?thesis by simp
    next
      case dots: True
      show ?thesis
      proof (cases kept)
        case (Cons k' ks)
        with dots Cons.prems have "canonical_fold comps ks d k = (segs, n)" by simp
        from Cons.IH [OF this] Cons Cons.prems(2) show ?thesis by simp
      next
        case Nil
        show ?thesis
        proof (cases "d > 0")
          case True
          with dots Nil Cons.prems have "canonical_fold comps [] (d - 1) k = (segs, n)" by simp
          from Cons.IH [OF this] show ?thesis by simp
        next
          case False
          with dots Nil Cons.prems have f: "canonical_fold comps [] d (Suc k) = (segs, n)"
            by simp
          from Cons.IH [OF f] show ?thesis by simp
        qed
      qed
    qed
  qed
qed

lemma MakeCanonical_refines:
  "MakeCanonical_log esc path d =
     (replace backslash CHR ''/'' (fst (canonicalize_spec esc path d)),
      replicate (snd (canonicalize_spec esc path d)) (Debug (PathTraversal path)))"
proof -
  obtain segs n where f: "canonical_fold (SplitPath esc path) [] d 0 = (segs, n)"
    by (cases "canonical_fold (SplitPath esc path) [] d 0")
  from MakeCanonical_loop_fold [OF f, of path "[]"]
  have l: "MakeCanonical_loop path (SplitPath esc path) [] d []
             = (segs, replicate n (Debug (PathTraversal path)))" by simp
  from canonical_fold_nonempty [OF f] have "\<forall>s\<in>set segs. s \<noteq> []" by simp
  from join_MakePath_segments [OF this] f l show ?thesis
    by (simp add: MakeCanonical_log_def canonicalize_spec_def)
qed

lemma Tokenize_from_chars:
  "t \<in> set (Tokenize_from f cur s) \<Longrightarrow> set t \<subseteq> set cur \<union> {c \<in> set s. \<not> f c}"
proof (induction s arbitrary: cur)
  case Nil
  then show ?case by simp
next
  case (Cons c s)
  show ?case
  proof (cases "f c")
    case True
    with Cons.prems have "t = cur \<or> t \<in> set (Tokenize_from f [] s)" by simp
    then show ?thesis using Cons.IH [of "[]"] by auto
  next
    case False
    with Cons.prems have "t \<in> set (Tokenize_from f (cur @ [c]) s)" by simp
    from Cons.IH [OF this] False show ?thesis by auto
  qed
qed

lemma SplitPath_chars:
  "t \<in> set (SplitPath esc path) \<Longrightarrow> c \<in> set t \<Longrightarrow> c \<in> set path \<and> \<not> is_delimiter esc c"
  using Tokenize_from_chars [of t "is_delimiter esc" "[]" path]
  by (auto simp: SplitPath_def Tokenize_def)

lemma join_segments_chars:
  "c \<in> set (join_segments segs) \<Longrightarrow> c = CHR ''/'' \<or> (\<exists>s\<in>set segs. c \<in> set s)"
  by (induction segs rule: join_segments.induct) auto

lemma canonicalize_spec_chars:
  assumes "c \<in> set (fst (canonicalize_spec esc path d))"
  shows "c = CHR ''/'' \<or> (c \<in> set path \<and> \<not> is_delimiter esc c)"
proof -
  obtain segs n where f: "canonical_fold (SplitPath esc path) [] d 0 = (segs, n)"
    by (cases "canonical_fold (SplitPath esc path) [] d 0")
  with assms have "c \<in> set (join_segments segs)" by (simp add: canonicalize_spec_def)
  from join_segments_chars [OF this]
  have "c = CHR ''/'' \<or> (\<exists>s\<in>set segs. c \<in> set s)" .
  moreover from canonical_fold_subset [OF f] have "set segs \<subseteq> set (SplitPath esc path)"
    by simp
  ultimately show ?thesis using SplitPath_chars by blast
qed

lemma canonicalize_spec_no_backslash:
  assumes "escape_char_back esc = backslash \<or> backslash \<notin> set path"
  shows "backslash \<notin> set (fst (canonicalize_spec esc path d))"
proof
  assume "backslash \<in> set (fst (canonicalize_spec esc path d))"
  from canonicalize_spec_chars [OF this]
  have "backslash \<in> set path \<and> \<not> is_delimiter esc backslash" by (simp add: backslash_def)
  with assms show False by (auto simp: is_delimiter_def)
qed

lemma Tokenize_from_cong:
  "\<forall>c\<in>set s. f c = g c \<Longrightarrow> Tokenize_from f cur s = Tokenize_from g cur s"
  by (induction s arbitrary: cur) simp_all

lemma SplitPath_slash_only:
  "escape_char_back esc \<notin> set path \<Longrightarrow> SplitPath esc path = Tokenize path (\<lambda>c. c = CHR ''/'')"
  unfolding SplitPath_def Tokenize_def
  by (rule Tokenize_from_cong) (auto simp: is_delimiter_def)

lemma MakeCanonical_example_pop:
  "escape_char_back esc \<notin> set ''a/b/../c'' \<Longrightarrow>
   MakeCanonical_log esc ''a/b/../c'' d = (''a/c'', [])"
  by (simp add: MakeCanonical_log_def SplitPath_slash_only Tokenize_def MakePath_def
        replace_def backslash_def)

lemma MakeCanonical_example_consume:
  "escape_char_back esc \<notin> set ''../x'' \<Longrightarrow> MakeCanonical_log esc ''../x'' 1 = (''x'', [])"
  by (simp add: MakeCanonical_log_def SplitPath_slash_only Tokenize_def MakePath_def
        replace_def backslash_def)

lemma MakeCanonical_example_clamp:
  "escape_char_back esc \<notin> set ''../../x'' \<Longrightarrow>
   MakeCanonical_log esc ''../../x'' 1 = (''x'', [Debug (PathTraversal ''../../x'')])"
  by (simp add: MakeCanonical_log_def SplitPath_slash_only Tokenize_def MakePath_def
        replace_def backslash_def)

text \<open>
  Claim C6. \<open>MakeCanonical\<close> is the fold of the specification over the tokens: \<open>.\<close> and
  empty segments are dropped, \<open>..\<close> pops the last retained segment, otherwise consumes one
  unit of the initial depth, otherwise is ignored with one debug diagnostic; the retained
  segments are joined with the slash (the join of the code also turns a backslash left
  inside a segment into a slash, which cannot happen when the backslash is the escape
  character or the path has none). For an escape character that does not occur in the
  path: \<open>a/b/../c\<close> gives \<open>a/c\<close> for every initial depth, \<open>../x\<close> with depth 1 gives \<open>x\<close>,
  and \<open>../../x\<close> with depth 1 gives \<open>x\<close> and one traversal diagnostic.
\<close>

theorem MakeCanonical_semantics:
  "MakeCanonical_log esc path d =
     (replace backslash CHR ''/'' (fst (canonicalize_spec esc path d)),
      replicate (snd (canonicalize_spec esc path d)) (Debug (PathTraversal path)))
   \<and> (escape_char_back esc = backslash \<or> backslash \<notin> set path \<longrightarrow>
        MakeCanonical esc path d = fst (canonicalize_spec esc path d))
   \<and> (escape_char_back esc \<notin> set ''a/b/../c'' \<longrightarrow>
        MakeCanonical esc ''a/b/../c'' d = ''a/c'')
   \<and> (escape_char_back esc \<notin> set ''../x'' \<longrightarrow> MakeCanonical esc ''../x'' 1 = ''x'')
   \<and> (escape_char_back esc \<notin> set ''../../x'' \<longrightarrow>
        MakeCanonical_log esc ''../../x'' 1 = (''x'', [Debug (PathTraversal ''../../x'')]))"
proof (intro conjI impI)
  show "MakeCanonical_log esc path d =
     (replace backslash CHR ''/'' (fst (canonicalize_spec esc path d)),
      replicate (snd (canonicalize_spec esc path d)) (Debug (PathTraversal path)))"
    by (rule MakeCanonical_refines)
next
  assume "escape_char_back esc = backslash \<or> backslash \<notin> set path"
  from canonicalize_spec_no_backslash [OF this, of d]
  show "MakeCanonical esc path d = fst (canonicalize_spec esc path d)"
    by (simp add: MakeCanonical_def MakeCanonical_refines replace_absent)
next
  assume "escape_char_back esc \<notin> set ''a/b/../c''"
  from MakeCanonical_example_pop [OF this, of d]
  show "MakeCanonical esc ''a/b/../c'' d = ''a/c''"
    by (simp add: MakeCanonical_def)
next
  assume "escape_char_back esc \<notin> set ''../x''"
  from MakeCanonical_example_consume [OF this]
  show "MakeCanonical esc ''../x'' 1 = ''x''"
    by (simp add: MakeCanonical_def)
next
  assume "escape_char_back esc \<notin> set ''../../x''"
  then show "MakeCanonical_log esc ''../../x'' 1 = (''x'', [Debug (PathTraversal ''../../x'')])"
    by (rule MakeCanonical_example_clamp)
qed

theorem MakeCanonical_semantics_witness:
  "escape_char_back [CHR 0x5C] = backslash
   \<and> escape_char_back [CHR 0x5C] \<notin> set ''a/b/../c''
   \<and> escape_char_back [CHR 0x5C] \<notin> set ''../x''
   \<and> escape_char_back [CHR 0x5C] \<notin> set ''../../x''
   \<and> MakeCanonical [CHR 0x5C] ''a/b/../c'' 0 = ''a/c''
   \<and> MakeCanonical [CHR 0x5C] ''../x'' 1 = ''x''
   \<and> MakeCanonical_log [CHR 0x5C] ''../../x'' 1 = (''x'', [Debug (PathTraversal ''../../x'')])"
proof -
  have e: "escape_char_back [CHR 0x5C] = backslash"
    by (simp add: escape_char_back_def backslash_def)
  have n: "escape_char_back [CHR 0x5C] \<notin> set ''a/b/../c''"
    "escape_char_back [CHR 0x5C] \<notin> set ''../x''"
    "escape_char_back [CHR 0x5C] \<notin> set ''../../x''"
    by (simp_all add: escape_char_back_def)
  from MakeCanonical_semantics [of "[CHR 0x5C]" "''a/b/../c''" 0] e n
  show ?thesis by blast
qed


section \<open>Searches that stay in the tree\<close>

lemma find_first_of_None: "find_first_of d s = None \<longleftrightarrow> d \<notin> set s"
  by (induction s) auto

lemma canon_without_slash:
  assumes "find_first_of CHR ''/'' (fst (MakeCanonical_log esc path d)) = None"
    and "c \<in> set (fst (MakeCanonical_log esc path d))"
  shows "\<not> is_delimiter esc c"
proof -
  from assms(1) have noslash: "CHR ''/'' \<notin> set (fst (MakeCanonical_log esc path d))"
    by (simp add: find_first_of_None)
  from assms(2) obtain y where y: "y \<in> set (fst (canonicalize_spec esc path d))"
    and c: "c = (if y = backslash then CHR ''/'' else y)"
    by (auto simp: MakeCanonical_refines replace_def)
  from noslash assms(2) have "c \<noteq> CHR ''/''" by auto
  with c have "c = y" and "y \<noteq> CHR ''/''" by (auto split: if_splits)
  with canonicalize_spec_chars [OF y] show ?thesis by simp
qed

lemma Tokenize_from_whole:
  "\<forall>c \<in> set s. \<not> f c \<Longrightarrow> Tokenize_from f cur s = [cur @ s]"
  by (induction s arbitrary: cur) simp_all



text \<open>
  A request at the root of the tree carries a canonical path without any delimiter.
\<close>

lemma AtRoot_without_delimiter:
  assumes "fst (FindFile_request e dir name translate) = AtRoot canon" and "c \<in> set canon"
  shows "\<not> is_delimiter (escape_symbol e) c"
proof -
  let ?dir = "Normalize e (if translate then GetTranslationDir e else dir)"
  let ?name = "Normalize e
              (if translate then MakePath (MakePath (GetCurrentTranslationId e) dir) name
               else name)"
  let ?canon = "fst (MakeCanonical_log (escape_symbol e) (MakePath ?dir ?name) 1)"
  from assms(1) have "find_first_of CHR ''/'' ?canon = None \<and> canon = ?canon"
    by (auto simp: FindFile_request_def Let_def split: if_splits option.splits)
  with canon_without_slash [of "escape_symbol e" "MakePath ?dir ?name" 1 c] assms(2)
  show ?thesis by simp
qed

text \<open>
  A name without a delimiter has one component: \<open>FindDefault\<close> on a tree looks it up in
  the tree's files and does not call the project-wide search.
\<close>

lemma FindDefault_tree_plain:
  assumes "\<forall>c \<in> set name. \<not> is_delimiter (escape_symbol e) c"
  shows "FindDefault_tree_via project e tree name st = Inr (root_entry e tree name, st, [])"
proof -
  from Tokenize_from_whole [OF assms, of "[]"]
  have "length (SplitPath (escape_symbol e) name) = 1"
    by (simp add: SplitPath_def Tokenize_def)
  then show ?thesis
    by (simp add: FindDefault_tree_via_def root_entry_def split: option.splits)
qed

lemma FindFile_canon_exts_plain:
  assumes "\<forall>c \<in> set canon. \<not> is_delimiter (escape_symbol e) c"
  shows "plain_exts (escape_symbol e) exts \<Longrightarrow>
         FindFile_canon_exts_via project e tree canon exts st log
           = Inr (root_lookup e tree canon exts, st, log)"
proof (induction exts)
  case Nil
  then show ?case by (simp add: root_lookup_def)
next
  case (Cons c exts)
  from Cons.prems assms have "\<forall>t \<in> set (canon @ c). \<not> is_delimiter (escape_symbol e) t"
    by (auto simp: plain_exts_def)
  from FindDefault_tree_plain [OF this]
  have head: "FindDefault_tree_via project e tree (canon @ c) st
                = Inr (root_entry e tree (canon @ c), st, [])" .
  from Cons have tail: "FindFile_canon_exts_via project e tree canon exts st log
                          = Inr (root_lookup e tree canon exts, st, log)"
    by (simp add: plain_exts_def)
  from head tail show ?case by (simp add: root_lookup_def)
qed

lemma FindFile_member_exts_first:
  "FindFile_member_exts dir_map name exts = first_present dir_map name exts"
  by (induction exts) (auto simp: first_present_def split: option.splits)

lemma FindFile_lookup_index:
  "FindFile_lookup e tree dir_key name exts = Inr found \<Longrightarrow>
   found = request_lookup e tree (InDirectory dir_key name) exts"
  by (auto simp: FindFile_lookup_def request_lookup_def index_lookup_def
        FindFile_member_exts_first split: option.splits)

text \<open>
  \<open>FindFile\<close> on a tree, for extensions without a delimiter or a request that is not at
  the root: the result is the lookup in the tree's own maps, the state is untouched, and
  the project-wide search plays no part.
\<close>

lemma FindFile_tree_stays:
  assumes "stays_in_tree e dir name exts translate"
    and "FindFile_tree_via project e st tree dir name exts translate = Inr (found, st', log)"
  shows "found = request_lookup e tree (fst (FindFile_request e dir name translate)) exts
         \<and> st' = st \<and> log = snd (FindFile_request e dir name translate)"
proof (cases "FindFile_request e dir name translate")
  case (Pair r l)
  show ?thesis
  proof (cases r)
    case NoTranslation
    with Pair assms(2) show ?thesis
      by (simp add: FindFile_tree_via_def request_lookup_def)
  next
    case (AtRoot canon)
    with Pair assms(1) have plain: "plain_exts (escape_symbol e) exts"
      by (simp add: stays_in_tree_def)
    from Pair AtRoot have "fst (FindFile_request e dir name translate) = AtRoot canon" by simp
    from AtRoot_without_delimiter [OF this]
    have "\<forall>c \<in> set canon. \<not> is_delimiter (escape_symbol e) c" by blast
    from FindFile_canon_exts_plain [OF this plain] Pair AtRoot assms(2) show ?thesis
      by (simp add: FindFile_tree_via_def request_lookup_def)
  next
    case (InDirectory d n)
    with Pair assms(2) show ?thesis
      by (auto simp: FindFile_tree_via_def split: sum.splits dest: FindFile_lookup_index)
  qed
qed

lemma FindFile_tree_independent:
  assumes "stays_in_tree e dir name exts translate"
  shows "FindFile_tree_via project e st tree dir name exts translate
           = FindFile_tree_via project' e st tree dir name exts translate"
proof (cases "FindFile_request e dir name translate")
  case (Pair r l)
  show ?thesis
  proof (cases r)
    case NoTranslation
    with Pair show ?thesis by (simp add: FindFile_tree_via_def)
  next
    case (AtRoot canon)
    with Pair assms have plain: "plain_exts (escape_symbol e) exts"
      by (simp add: stays_in_tree_def)
    from Pair AtRoot have "fst (FindFile_request e dir name translate) = AtRoot canon" by simp
    from AtRoot_without_delimiter [OF this]
    have "\<forall>c \<in> set canon. \<not> is_delimiter (escape_symbol e) c" by blast
    from FindFile_canon_exts_plain [OF this plain] Pair AtRoot show ?thesis
      by (simp add: FindFile_tree_via_def)
  next
    case (InDirectory d n)
    with Pair show ?thesis by (simp add: FindFile_tree_via_def)
  qed
qed

lemma plain_stays: "plain_exts (escape_symbol e) exts \<Longrightarrow> stays_in_tree e dir name exts translate"
  by (simp add: stays_in_tree_def)

lemma normal_search_plain:
  assumes "plain_exts (escape_symbol e) exts"
  shows "normal_search_via project e paths dir name exts st log
           = normal_search_via project' e paths dir name exts st log
         \<and> (\<forall>found st' l. normal_search_via project e paths dir name exts st log
                            = Inr (found, st', l) \<longrightarrow> st' = st)"
proof (induction paths arbitrary: log)
  case Nil
  show ?case by simp
next
  case (Cons path paths)
  have same: "FindFile_tree_via project e st path dir name exts False
                = FindFile_tree_via project' e st path dir name exts False"
    by (rule FindFile_tree_independent [OF plain_stays [OF assms]])
  show ?case
  proof (cases "FindFile_tree_via project e st path dir name exts False")
    case (Inl f)
    with same have "FindFile_tree_via project' e st path dir name exts False = Inl f" by simp
    with Inl show ?thesis by simp
  next
    case (Inr r)
    obtain found st' l where r: "r = (found, st', l)" by (cases r)
    from FindFile_tree_stays [OF plain_stays [OF assms]] Inr r have st': "st' = st" by blast
    from same Inr have "FindFile_tree_via project' e st path dir name exts False = Inr r"
      by simp
    with Inr r st' Cons [of "log @ l"] show ?thesis by simp
  qed
qed

lemma rtp_search_inner_plain:
  assumes "plain_exts (escape_symbol e) exts"
  shows "rtp_search_inner_via project e rtp gs dir name exts b st log
           = rtp_search_inner_via project' e rtp gs dir name exts b st log
         \<and> (\<forall>found flag st' l. rtp_search_inner_via project e rtp gs dir name exts b st log
                            = Inr (found, flag, st', l) \<longrightarrow> st' = st)"
proof (induction gs arbitrary: b log)
  case Nil
  show ?case by simp
next
  case (Cons g gs)
  obtain rtp_entry written where lk: "LookupRtpToRtp e dir name g (hit_type rtp)
                                        = (rtp_entry, written)"
    by (cases "LookupRtpToRtp e dir name g (hit_type rtp)")
  let ?flag = "case written of None \<Rightarrow> b | Some b' \<Rightarrow> b'"
  show ?case
  proof (cases "rtp_entry = []")
    case True
    with lk Cons [of ?flag log] show ?thesis by simp
  next
    case False
    have same: "FindFile_tree_via project e st (hit_tree rtp) dir rtp_entry exts False
                = FindFile_tree_via project' e st (hit_tree rtp) dir rtp_entry exts False"
      by (rule FindFile_tree_independent [OF plain_stays [OF assms]])
    show ?thesis
    proof (cases "FindFile_tree_via project e st (hit_tree rtp) dir rtp_entry exts False")
      case (Inl f)
      with same
      have "FindFile_tree_via project' e st (hit_tree rtp) dir rtp_entry exts False = Inl f"
        by simp
      with Inl lk False show ?thesis by simp
    next
      case (Inr r)
      obtain found st' l where r: "r = (found, st', l)" by (cases r)
      from FindFile_tree_stays [OF plain_stays [OF assms]] Inr r have st': "st' = st" by blast
      from same Inr
      have "FindFile_tree_via project' e st (hit_tree rtp) dir rtp_entry exts False = Inr r"
        by simp
      with Inr r st' lk False Cons [of ?flag "log @ l"] show ?thesis by simp
    qed
  qed
qed

lemma rtp_search_plain:
  assumes "plain_exts (escape_symbol e) exts"
  shows "rtp_search_via project e rtps dir name exts b st log
           = rtp_search_via project' e rtps dir name exts b st log
         \<and> (\<forall>found flag st' l. rtp_search_via project e rtps dir name exts b st log
                            = Inr (found, flag, st', l) \<longrightarrow> st' = st)"
proof (induction rtps arbitrary: b log)
  case Nil
  show ?case by simp
next
  case (Cons rtp rtps)
  from rtp_search_inner_plain [OF assms]
  have same: "rtp_search_inner_via project e rtp (game_rtp st) dir name exts b st log
                = rtp_search_inner_via project' e rtp (game_rtp st) dir name exts b st log"
    and keep: "\<And>found flag st' l.
                 rtp_search_inner_via project e rtp (game_rtp st) dir name exts b st log
                   = Inr (found, flag, st', l) \<Longrightarrow> st' = st"
    by blast+
  show ?case
  proof (cases "rtp_search_inner_via project e rtp (game_rtp st) dir name exts b st log")
    case (Inl f)
    with same
    have "rtp_search_inner_via project' e rtp (game_rtp st) dir name exts b st log = Inl f"
      by simp
    with Inl show ?thesis by simp
  next
    case (Inr r)
    obtain found flag st' l where r: "r = (found, flag, st', l)" by (cases r)
    from keep Inr r have st': "st' = st" by blast
    from same Inr
    have R: "rtp_search_inner_via project' e rtp (game_rtp st) dir name exts b st log = Inr r"
      by simp
    show ?thesis
    proof (cases found)
      case None
      with Inr R r st' Cons [of flag l] show ?thesis by simp
    next
      case (Some p)
      with Inr R r st' show ?thesis by simp
    qed
  qed
qed

text \<open>
  With extensions without a delimiter \<open>rtp_lookup\<close> leaves the state of its detection
  block, and no search it makes reaches the project-wide search.
\<close>

lemma rtp_lookup_plain:
  assumes "plain_exts (escape_symbol e) exts"
  shows "rtp_lookup_via project e st dir name exts b
           = rtp_lookup_via project' e st dir name exts b
         \<and> (\<forall>r. rtp_lookup_via project e st dir name exts b = Inr r
                  \<longrightarrow> rtp_after r = fst (rtp_detect e st dir name))"
proof (cases "rtp_detect e st dir name")
  case (Pair st1 log)
  show ?thesis
  proof (cases "game_rtp st1 = []")
    case True
    from normal_search_plain [OF assms, of project "search_paths st1" dir name st1 log project']
    show ?thesis using Pair True
      by (auto simp: rtp_lookup_via_def split: sum.splits prod.splits)
  next
    case False
    from rtp_search_plain [OF assms, of project "detected_rtp st1" dir name b st1 log project']
    have same: "rtp_search_via project e (detected_rtp st1) dir name exts b st1 log
                  = rtp_search_via project' e (detected_rtp st1) dir name exts b st1 log"
      and keep: "\<And>found flag st' l.
                 rtp_search_via project e (detected_rtp st1) dir name exts b st1 log
                   = Inr (found, flag, st', l) \<Longrightarrow> st' = st1"
      by blast+
    show ?thesis
    proof (cases "rtp_search_via project e (detected_rtp st1) dir name exts b st1 log")
      case (Inl f)
      with same
      have "rtp_search_via project' e (detected_rtp st1) dir name exts b st1 log = Inl f"
        by simp
      with Inl Pair False show ?thesis by (simp add: rtp_lookup_via_def)
    next
      case (Inr r)
      obtain found flag st' l where r: "r = (found, flag, st', l)" by (cases r)
      from keep Inr r have st': "st' = st1" by blast
      from same Inr
      have R: "rtp_search_via project' e (detected_rtp st1) dir name exts b st1 log = Inr r"
        by simp
      show ?thesis
      proof (cases found)
        case (Some p)
        with Inr R r st' Pair False show ?thesis by (simp add: rtp_lookup_via_def)
      next
        case None
        from normal_search_plain [OF assms, of project "search_paths st1" dir name st1 l
            project']
        show ?thesis using None Inr R r st' Pair False
          by (auto simp: rtp_lookup_via_def split: sum.splits prod.splits)
      qed
    qed
  qed
qed

lemma FindFile_plain:
  assumes "plain_exts (escape_symbol e) exts"
  shows "FindFile_via project e game st u dir name exts translate
           = FindFile_via project' e game st u dir name exts translate"
proof (cases game)
  case None
  then show ?thesis by (simp add: FindFile_via_def)
next
  case (Some tree)
  note T = FindFile_tree_independent [OF plain_stays [OF assms], of project _ _ _ _ _ project']
  note K = FindFile_tree_stays [OF plain_stays [OF assms]]
  have first: "(if translate then FindFile_tree_via project e st tree dir name exts True
                else Inr ([], st, []))
               = (if translate then FindFile_tree_via project' e st tree dir name exts True
                  else Inr ([], st, []))"
    using T [of st tree dir name True] by simp
  show ?thesis
  proof (cases "if translate then FindFile_tree_via project e st tree dir name exts True
                else Inr ([], st, [])")
    case (Inl f)
    with first
    have "(if translate then FindFile_tree_via project' e st tree dir name exts True
           else Inr ([], st, [])) = Inl f" by simp
    with Inl Some show ?thesis by (simp add: FindFile_via_def)
  next
    case (Inr r1)
    obtain translated st1 log1 where r1: "r1 = (translated, st1, log1)" by (cases r1)
    from first Inr
    have R1: "(if translate then FindFile_tree_via project' e st tree dir name exts True
               else Inr ([], st, [])) = Inr r1" by simp
    have second: "FindFile_tree_via project e st1 tree dir name exts False
                    = FindFile_tree_via project' e st1 tree dir name exts False"
      by (rule T)
    show ?thesis
    proof (cases "FindFile_tree_via project e st1 tree dir name exts False")
      case (Inl f)
      with second
      have "FindFile_tree_via project' e st1 tree dir name exts False = Inl f" by simp
      with Inl Inr R1 r1 Some show ?thesis by (simp add: FindFile_via_def)
    next
      case Inr2: (Inr r2)
      obtain direct st2 log2 where r2: "r2 = (direct, st2, log2)" by (cases r2)
      from second Inr2
      have R2: "FindFile_tree_via project' e st1 tree dir name exts False = Inr r2" by simp
      from rtp_lookup_plain [OF assms, of project st2 "Normalize e dir" "Normalize e name" u
          project']
      have third: "rtp_lookup_via project e st2 (Normalize e dir) (Normalize e name) exts u
                     = rtp_lookup_via project' e st2 (Normalize e dir) (Normalize e name) exts u"
        by blast
      from Inr R1 r1 Inr2 R2 r2 third Some show ?thesis
        by (simp add: FindFile_via_def)
    qed
  qed
qed

text \<open>
  The table \<open>no_exts\<close> holds the empty extension, which has no delimiter: the top-level
  \<open>FindFile\<close> with that table never reaches the project-wide search, so
  \<open>FindDefault(dir, name)\<close> is the same function whatever search it is given.
\<close>

lemma FindFile_via_no_exts:
  "FindFile_via project e game st u dir name [[]] False
     = FindFile_via no_further_search e game st u dir name [[]] False"
  by (rule FindFile_plain) (simp add: plain_exts_def)

lemma FindDefault_dir_is_FindFile:
  "FindDefault_dir e game u dir name st =
     (case FindFile e game st u dir name [[]] False of
        Inl f \<Rightarrow> Inl f
      | Inr r \<Rightarrow> Inr (found_path r, state_after r, find_log r))"
proof -
  have "FindFile e game st u dir name [[]] False
          = FindFile_via no_further_search e game st u dir name [[]] False"
    unfolding FindFile_def by (rule FindFile_via_no_exts)
  then show ?thesis by (simp add: FindDefault_dir_def)
qed

text \<open>
  A search that returns although the project-wide search it is given never comes back
  (\<open>no_further_search\<close>) has not called it: it returns the same with every project-wide
  search, and leaves the state as it was.
\<close>

lemma FindDefault_tree_direct:
  assumes "FindDefault_tree_via no_further_search e tree name st = Inr (found, st', l)"
  shows "FindDefault_tree_via project e tree name st = Inr (found, st', l) \<and> st' = st"
proof (cases "length (SplitPath (escape_symbol e) name) > 1")
  case True
  with assms show ?thesis
    by (simp add: FindDefault_tree_via_def Let_def no_further_search_def)
next
  case False
  with assms show ?thesis
    by (auto simp: FindDefault_tree_via_def Let_def split: option.splits)
qed

lemma FindFile_canon_exts_direct:
  "FindFile_canon_exts_via no_further_search e tree canon exts st log = Inr (found, st', l)
   \<Longrightarrow> FindFile_canon_exts_via project e tree canon exts st log = Inr (found, st', l)
       \<and> st' = st"
proof (induction exts arbitrary: log)
  case Nil
  then show ?case by simp
next
  case (Cons c exts)
  show ?case
  proof (cases "FindDefault_tree_via no_further_search e tree (canon @ c) st")
    case (Inl f)
    with Cons.prems show ?thesis by simp
  next
    case (Inr r)
    obtain res st1 l1 where r: "r = (res, st1, l1)" by (cases r)
    from FindDefault_tree_direct [of e tree "canon @ c" st res st1 l1 project] Inr r
    have head: "FindDefault_tree_via project e tree (canon @ c) st = Inr (res, st, l1)"
      and st1: "st1 = st" by simp_all
    show ?thesis
    proof (cases "res = []")
      case True
      with Inr r st1 Cons.prems
      have "FindFile_canon_exts_via no_further_search e tree canon exts st (log @ l1)
              = Inr (found, st', l)" by simp
      from Cons.IH [OF this] True head show ?thesis by simp
    next
      case False
      with Inr r st1 Cons.prems head show ?thesis by simp
    qed
  qed
qed

lemma FindFile_tree_direct:
  assumes "FindFile_tree_via no_further_search e st tree dir name exts translate
             = Inr (found, st', l)"
  shows "FindFile_tree_via project e st tree dir name exts translate = Inr (found, st', l)
         \<and> st' = st"
proof (cases "FindFile_request e dir name translate")
  case (Pair r log)
  show ?thesis
  proof (cases r)
    case NoTranslation
    with Pair assms show ?thesis by (simp add: FindFile_tree_via_def)
  next
    case (AtRoot canon)
    with Pair assms
    have "FindFile_canon_exts_via no_further_search e tree canon exts st log
            = Inr (found, st', l)"
      by (simp add: FindFile_tree_via_def)
    from FindFile_canon_exts_direct [OF this, of project] Pair AtRoot show ?thesis
      by (simp add: FindFile_tree_via_def)
  next
    case (InDirectory d n)
    with Pair assms show ?thesis
      by (auto simp: FindFile_tree_via_def split: sum.splits)
  qed
qed

lemma normal_search_direct:
  "normal_search_via no_further_search e paths dir name exts st log = Inr (found, st', l)
   \<Longrightarrow> normal_search_via project e paths dir name exts st log = Inr (found, st', l)
       \<and> st' = st"
proof (induction paths arbitrary: log)
  case Nil
  then show ?case by simp
next
  case (Cons path paths)
  show ?case
  proof (cases "FindFile_tree_via no_further_search e st path dir name exts False")
    case (Inl f)
    with Cons.prems show ?thesis by simp
  next
    case (Inr r)
    obtain res st1 l1 where r: "r = (res, st1, l1)" by (cases r)
    from FindFile_tree_direct [of e st path dir name exts False res st1 l1 project] Inr r
    have head: "FindFile_tree_via project e st path dir name exts False = Inr (res, st, l1)"
      and st1: "st1 = st" by simp_all
    show ?thesis
    proof (cases "res = []")
      case True
      with Inr r st1 Cons.prems
      have "normal_search_via no_further_search e paths dir name exts st (log @ l1)
              = Inr (found, st', l)" by simp
      from Cons.IH [OF this] True head show ?thesis by simp
    next
      case False
      with Inr r st1 Cons.prems head show ?thesis by simp
    qed
  qed
qed

lemma rtp_search_inner_direct:
  "rtp_search_inner_via no_further_search e rtp gs dir name exts b st log
     = Inr (found, flag, st', l)
   \<Longrightarrow> rtp_search_inner_via project e rtp gs dir name exts b st log = Inr (found, flag, st', l)
       \<and> st' = st"
proof (induction gs arbitrary: b log)
  case Nil
  then show ?case by simp
next
  case (Cons g gs)
  obtain rtp_entry written where lk: "LookupRtpToRtp e dir name g (hit_type rtp)
                                        = (rtp_entry, written)"
    by (cases "LookupRtpToRtp e dir name g (hit_type rtp)")
  let ?flag = "case written of None \<Rightarrow> b | Some b' \<Rightarrow> b'"
  show ?case
  proof (cases "rtp_entry = []")
    case True
    with lk Cons.prems
    have "rtp_search_inner_via no_further_search e rtp gs dir name exts ?flag st log
            = Inr (found, flag, st', l)" by simp
    from Cons.IH [OF this] True lk show ?thesis by simp
  next
    case False
    show ?thesis
    proof (cases "FindFile_tree_via no_further_search e st (hit_tree rtp) dir rtp_entry exts
                    False")
      case (Inl f)
      with lk False Cons.prems show ?thesis by simp
    next
      case (Inr r)
      obtain res st1 l1 where r: "r = (res, st1, l1)" by (cases r)
      from FindFile_tree_direct [of e st "hit_tree rtp" dir rtp_entry exts False res st1 l1
          project] Inr r
      have head: "FindFile_tree_via project e st (hit_tree rtp) dir rtp_entry exts False
                    = Inr (res, st, l1)"
        and st1: "st1 = st" by simp_all
      show ?thesis
      proof (cases "res = []")
        case True
        with Inr r st1 lk False Cons.prems
        have "rtp_search_inner_via no_further_search e rtp gs dir name exts ?flag st
                (log @ l1) = Inr (found, flag, st', l)" by simp
        from Cons.IH [OF this] True head lk False show ?thesis by simp
      next
        case nonempty: False
        with Inr r st1 lk False Cons.prems head show ?thesis by simp
      qed
    qed
  qed
qed

lemma rtp_search_direct:
  "rtp_search_via no_further_search e rtps dir name exts b st log = Inr (found, flag, st', l)
   \<Longrightarrow> rtp_search_via project e rtps dir name exts b st log = Inr (found, flag, st', l)
       \<and> st' = st"
proof (induction rtps arbitrary: b log)
  case Nil
  then show ?case by simp
next
  case (Cons rtp rtps)
  show ?case
  proof (cases "rtp_search_inner_via no_further_search e rtp (game_rtp st) dir name exts b st
                  log")
    case (Inl f)
    with Cons.prems show ?thesis by simp
  next
    case (Inr r)
    obtain res flag1 st1 l1 where r: "r = (res, flag1, st1, l1)" by (cases r)
    from rtp_search_inner_direct [of e rtp "game_rtp st" dir name exts b st log res flag1 st1
        l1 project] Inr r
    have head: "rtp_search_inner_via project e rtp (game_rtp st) dir name exts b st log
                  = Inr (res, flag1, st, l1)"
      and st1: "st1 = st" by simp_all
    show ?thesis
    proof (cases res)
      case None
      with Inr r st1 Cons.prems
      have "rtp_search_via no_further_search e rtps dir name exts flag1 st l1
              = Inr (found, flag, st', l)" by simp
      from Cons.IH [OF this] None head show ?thesis by simp
    next
      case (Some p)
      with Inr r st1 Cons.prems head show ?thesis by auto
    qed
  qed
qed

lemma rtp_lookup_direct:
  assumes "rtp_lookup_via no_further_search e st dir name exts b = Inr r"
  shows "rtp_lookup_via project e st dir name exts b = Inr r
         \<and> rtp_after r = fst (rtp_detect e st dir name)"
proof (cases "rtp_detect e st dir name")
  case (Pair st1 log)
  show ?thesis
  proof (cases "game_rtp st1 = []")
    case True
    with Pair assms obtain found st2 l
      where n: "normal_search_via no_further_search e (search_paths st1) dir name exts st1 log
                  = Inr (found, st2, l)"
        and r: "r = \<lparr>rtp_path = found, rtp_flag = False, rtp_after = st2, rtp_log = l\<rparr>"
      by (auto simp: rtp_lookup_via_def split: sum.splits)
    from normal_search_direct [OF n, of project] r Pair True show ?thesis
      by (simp add: rtp_lookup_via_def)
  next
    case False
    show ?thesis
    proof (cases "rtp_search_via no_further_search e (detected_rtp st1) dir name exts b st1
                    log")
      case (Inl f)
      with Pair False assms show ?thesis by (simp add: rtp_lookup_via_def)
    next
      case (Inr q)
      obtain res flag st2 l where q: "q = (res, flag, st2, l)" by (cases q)
      from rtp_search_direct [of e "detected_rtp st1" dir name exts b st1 log res flag st2 l
          project] Inr q
      have head: "rtp_search_via project e (detected_rtp st1) dir name exts b st1 log
                    = Inr (res, flag, st1, l)"
        and st2: "st2 = st1" by simp_all
      show ?thesis
      proof (cases res)
        case (Some p)
        with Inr q st2 head Pair False assms show ?thesis
          by (auto simp: rtp_lookup_via_def)
      next
        case None
        with Inr q st2 Pair False assms obtain found st3 l'
          where n: "normal_search_via no_further_search e (search_paths st1) dir name exts st1 l
                      = Inr (found, st3, l')"
            and r: "r = \<lparr>rtp_path = found, rtp_flag = False, rtp_after = st3,
                          rtp_log = l'\<rparr>"
          by (auto simp: rtp_lookup_via_def split: sum.splits)
        from normal_search_direct [OF n, of project] r None head Pair False show ?thesis
          by (simp add: rtp_lookup_via_def)
      qed
    qed
  qed
qed

lemma replace_escape_none: "find_str esc s = None \<Longrightarrow> replace_escape esc s = Some s"
  by (subst replace_escape.simps) simp

lemmas example_simps =
  env_example_def rtp_enabled_def rtp_installed_def rtp_state_init_def
  rtp_tree_example_def project_example_def
  oracle_AB_def oracle_addon_def oracle_one_def no_translation_def same_name_def

lemmas FindFile_tree_simps =
  FindFile_tree_def FindFile_tree_via_def FindFile_request_def FindFile_lookup_def
  FindDefault_tree_via_def MakeCanonical_log_def
  SplitPath_def Tokenize_def is_delimiter_def escape_char_back_def MakePath_def replace_def
  backslash_def replace_escape_none

lemmas rtp_lookup_simps = rtp_lookup_def rtp_lookup_via_def rtp_detect_def

section \<open>Narrowing of game_rtp\<close>

lemma erase_non_candidates_filter:
  "erase_non_candidates candidates ts = filter (\<lambda>t. t \<in> set candidates) ts"
  by (induction ts) simp_all

lemma rtp_lookup_plain_direct:
  assumes "plain_exts (escape_symbol e) exts"
    and "rtp_lookup e game u st dir name exts b = Inr r"
  shows "rtp_lookup_via no_further_search e st dir name exts b = Inr r"
  using rtp_lookup_plain [OF assms(1), of "FindDefault_dir e game u" st dir name b
      no_further_search] assms(2)
  by (simp add: rtp_lookup_def)

lemma game_rtp_detect:
  "game_rtp (fst (rtp_detect e st dir name)) =
     (let candidates = remove1 RPG2000_DonMiguelAddon
                         (LookupAnyToRtp e dir name (EngineVersion e))
      in if length (game_rtp st) = 1 \<or> candidates = [] then game_rtp st
         else if game_rtp st = [] then candidates
         else filter (\<lambda>t. t \<in> set candidates) (game_rtp st))"
  by (simp add: rtp_detect_def Let_def erase_non_candidates_filter)

lemma distinct_singleton: "distinct xs \<Longrightarrow> set xs = {x} \<Longrightarrow> xs = [x]"
proof (cases xs)
  case Nil
  assume "set xs = {x}"
  with Nil show ?thesis by simp
next
  case (Cons a ys)
  assume d: "distinct xs" and s: "set xs = {x}"
  from s Cons have a: "a = x" by auto
  from s Cons a have "set ys \<subseteq> {x}" by auto
  moreover from d Cons a have "x \<notin> set ys" by simp
  ultimately have "ys = []" by (cases ys) auto
  with Cons a show ?thesis by simp
qed

text \<open>Two detections in a row, the first on an empty \<open>game_rtp\<close>.\<close>

lemma narrow_two:
  assumes empty: "game_rtp st = []"
    and dA: "distinct cA" and sA: "set cA = {V1, V2}"
    and dB: "distinct cB" and sB: "set cB = {V2, V3}"
    and ne: "V1 \<noteq> V3"
    and addon: "RPG2000_DonMiguelAddon \<notin> {V1, V2, V3}"
    and oA: "LookupAnyToRtp e dirA nameA (EngineVersion e) = cA"
    and oB: "LookupAnyToRtp e dirB nameB (EngineVersion e) = cB"
    and st1: "st1 = fst (rtp_detect e st dirA nameA)"
    and st2: "st2 = fst (rtp_detect e st1 dirB nameB)"
  shows "game_rtp st2 = [V2]"
proof -
  from addon sA have rA: "remove1 RPG2000_DonMiguelAddon cA = cA"
    by (intro remove1_idem) auto
  from addon sB have rB: "remove1 RPG2000_DonMiguelAddon cB = cB"
    by (intro remove1_idem) auto
  from sA have neA: "cA \<noteq> []" by auto
  from sB have neB: "cB \<noteq> []" by auto
  have g1: "game_rtp st1 = cA"
    unfolding st1 game_rtp_detect using empty oA rA neA by simp
  show ?thesis
  proof (cases "length cA = 1")
    case True
    then obtain a where "cA = [a]" by (cases cA) auto
    with sA have "cA = [V2]" by auto
    with g1 show ?thesis unfolding st2 game_rtp_detect by simp
  next
    case False
    have "V1 \<noteq> V2"
    proof
      assume "V1 = V2"
      with sA dA have "cA = [V2]" by (simp add: distinct_singleton)
      with False show False by simp
    qed
    have g2: "game_rtp st2 = filter (\<lambda>t. t \<in> set cB) cA"
      unfolding st2 game_rtp_detect using g1 False oB rB neB neA by simp
    have "set (filter (\<lambda>t. t \<in> set cB) cA) = {V2}"
      using sA sB ne \<open>V1 \<noteq> V2\<close> by auto
    moreover have "distinct (filter (\<lambda>t. t \<in> set cB) cA)" using dA by simp
    ultimately show ?thesis using g2 by (simp add: distinct_singleton)
  qed
qed

text \<open>
  Claim C1. From an empty \<open>game_rtp\<close>, with a table that lists for asset A exactly the
  variants V1 and V2 and for asset B exactly V2 and V3 (each once, the add-on in neither,
  V1 and V3 different), the lookup of A followed by the lookup of B leaves \<open>game_rtp\<close> with
  the one element V2, and so does B followed by A. The two lookups are the only ones of
  the session: they return without handing a name over to the project-wide search, which
  would run \<open>rtp_lookup\<close> for a third asset (the hypotheses on the lookups with
  \<open>no_further_search\<close>; by lemma \<open>rtp_lookup_plain_direct\<close> every lookup that returns
  with an extension table without path delimiter is one). The lookups of the code then
  return the same results.
\<close>

theorem rtp_narrowing_order_independent:
  assumes "game_rtp st = []"
    and "distinct (LookupAnyToRtp e dirA nameA (EngineVersion e))"
    and "set (LookupAnyToRtp e dirA nameA (EngineVersion e)) = {V1, V2}"
    and "distinct (LookupAnyToRtp e dirB nameB (EngineVersion e))"
    and "set (LookupAnyToRtp e dirB nameB (EngineVersion e)) = {V2, V3}"
    and "V1 \<noteq> V3"
    and "RPG2000_DonMiguelAddon \<notin> {V1, V2, V3}"
    and "rtp_lookup_via no_further_search e st dirA nameA extsA flagA = Inr rA"
    and "rtp_lookup_via no_further_search e (rtp_after rA) dirB nameB extsB flagB = Inr rAB"
    and "rtp_lookup_via no_further_search e st dirB nameB extsB flagB = Inr rB"
    and "rtp_lookup_via no_further_search e (rtp_after rB) dirA nameA extsA flagA = Inr rBA"
  shows "rtp_lookup e game u st dirA nameA extsA flagA = Inr rA
         \<and> rtp_lookup e game u (rtp_after rA) dirB nameB extsB flagB = Inr rAB
         \<and> rtp_lookup e game u st dirB nameB extsB flagB = Inr rB
         \<and> rtp_lookup e game u (rtp_after rB) dirA nameA extsA flagA = Inr rBA
         \<and> game_rtp (rtp_after rAB) = [V2] \<and> game_rtp (rtp_after rBA) = [V2]"
proof -
  note A = rtp_lookup_direct [OF assms(8), of "FindDefault_dir e game u"]
  note AB = rtp_lookup_direct [OF assms(9), of "FindDefault_dir e game u"]
  note B = rtp_lookup_direct [OF assms(10), of "FindDefault_dir e game u"]
  note BA = rtp_lookup_direct [OF assms(11), of "FindDefault_dir e game u"]
  have first: "game_rtp (rtp_after rAB) = [V2]"
    using narrow_two [OF assms(1-7) refl refl A [THEN conjunct2] AB [THEN conjunct2]] .
  from assms(5) have sB: "set (LookupAnyToRtp e dirB nameB (EngineVersion e)) = {V3, V2}"
    by auto
  from assms(3) have sA: "set (LookupAnyToRtp e dirA nameA (EngineVersion e)) = {V2, V1}"
    by auto
  from assms(6) have ne: "V3 \<noteq> V1" by simp
  from assms(7) have ad: "RPG2000_DonMiguelAddon \<notin> {V3, V2, V1}" by auto
  have second: "game_rtp (rtp_after rBA) = [V2]"
    using narrow_two [OF assms(1) assms(4) sB assms(2) sA ne ad refl refl
        B [THEN conjunct2] BA [THEN conjunct2]] .
  from A AB B BA first second show ?thesis by (simp add: rtp_lookup_def)
qed

theorem rtp_narrowing_order_independent_witness:
  "game_rtp rtp_enabled = []
   \<and> rtp_lookup (env_example oracle_AB no_translation) (Some project_example) False rtp_enabled
         ''picture'' ''A'' [''.png''] False
       = Inr \<lparr>rtp_path = [], rtp_flag = False,
              rtp_after = rtp_enabled\<lparr>game_rtp := [RtpVariant 1, RtpVariant 2]\<rparr>,
              rtp_log = []\<rparr>
   \<and> rtp_lookup (env_example oracle_AB no_translation) (Some project_example) False
         (rtp_enabled\<lparr>game_rtp := [RtpVariant 1, RtpVariant 2]\<rparr>)
         ''picture'' ''B'' [''.png''] False
       = Inr \<lparr>rtp_path = [], rtp_flag = False,
              rtp_after = rtp_enabled\<lparr>game_rtp := [RtpVariant 2]\<rparr>,
              rtp_log = [Debug (GameUsesRtp (RtpVariant 2))]\<rparr>
   \<and> rtp_lookup (env_example oracle_AB no_translation) (Some project_example) False rtp_enabled
         ''picture'' ''B'' [''.png''] False
       = Inr \<lparr>rtp_path = [], rtp_flag = False,
              rtp_after = rtp_enabled\<lparr>game_rtp := [RtpVariant 2, RtpVariant 3]\<rparr>,
              rtp_log = []\<rparr>
   \<and> rtp_lookup (env_example oracle_AB no_translation) (Some project_example) False
         (rtp_enabled\<lparr>game_rtp := [RtpVariant 2, RtpVariant 3]\<rparr>)
         ''picture'' ''A'' [''.png''] False
       = Inr \<lparr>rtp_path = [], rtp_flag = False,
              rtp_after = rtp_enabled\<lparr>game_rtp := [RtpVariant 2]\<rparr>,
              rtp_log = [Debug (GameUsesRtp (RtpVariant 2))]\<rparr>
   \<and> game_rtp (rtp_enabled\<lparr>game_rtp := [RtpVariant 2]\<rparr>) = [RtpVariant 2]"
proof -
  let ?e = "env_example oracle_AB no_translation"
  let ?g = "Some project_example"
  let ?rA = "\<lparr>rtp_path = [], rtp_flag = False,
              rtp_after = rtp_enabled\<lparr>game_rtp := [RtpVariant 1, RtpVariant 2]\<rparr>,
              rtp_log = []\<rparr>"
  let ?rB = "\<lparr>rtp_path = [], rtp_flag = False,
              rtp_after = rtp_enabled\<lparr>game_rtp := [RtpVariant 2, RtpVariant 3]\<rparr>,
              rtp_log = []\<rparr>"
  let ?r2 = "\<lparr>rtp_path = [], rtp_flag = False,
              rtp_after = rtp_enabled\<lparr>game_rtp := [RtpVariant 2]\<rparr>,
              rtp_log = [Debug (GameUsesRtp (RtpVariant 2))]\<rparr>"
  have h1: "game_rtp rtp_enabled = []"
    by (simp add: example_simps)
  have h2: "distinct (LookupAnyToRtp ?e ''picture'' ''A'' (EngineVersion ?e))"
    and h3: "set (LookupAnyToRtp ?e ''picture'' ''A'' (EngineVersion ?e))
               = {RtpVariant 1, RtpVariant 2}"
    and h4: "distinct (LookupAnyToRtp ?e ''picture'' ''B'' (EngineVersion ?e))"
    and h5: "set (LookupAnyToRtp ?e ''picture'' ''B'' (EngineVersion ?e))
               = {RtpVariant 2, RtpVariant 3}"
    by (simp_all add: example_simps)
  have h6: "RtpVariant 1 \<noteq> RtpVariant 3" by simp
  have h7: "RPG2000_DonMiguelAddon \<notin> {RtpVariant 1, RtpVariant 2, RtpVariant 3}" by simp
  have h8: "rtp_lookup_via no_further_search ?e rtp_enabled ''picture'' ''A'' [''.png''] False
              = Inr ?rA"
    by (simp add: example_simps rtp_lookup_simps)
  have h9: "rtp_lookup_via no_further_search ?e (rtp_after ?rA) ''picture'' ''B'' [''.png'']
              False = Inr ?r2"
    by (simp add: example_simps rtp_lookup_simps)
  have h10: "rtp_lookup_via no_further_search ?e rtp_enabled ''picture'' ''B'' [''.png''] False
               = Inr ?rB"
    by (simp add: example_simps rtp_lookup_simps)
  have h11: "rtp_lookup_via no_further_search ?e (rtp_after ?rB) ''picture'' ''A'' [''.png'']
               False = Inr ?r2"
    by (simp add: example_simps rtp_lookup_simps)
  from rtp_narrowing_order_independent [OF h1 h2 h3 h4 h5 h6 h7 h8 h9 h10 h11,
      of ?g False] h1
  show ?thesis by simp
qed

text \<open>
  Claim C2, the code at a session that contradicts it. Asset A is in the variants 1 and 2,
  asset C only in variant 3, asset B in 2 and 3. After A and C the intersection is empty;
  the lookup of B then finds \<open>game_rtp\<close> empty and assigns its candidates, so the set grows
  from nothing to the variants 2 and 3.
\<close>

theorem rtp_lookup_regrows_game_rtp:
  "map game_rtp (rtp_session (env_example oracle_AB no_translation) (Some project_example)
          False rtp_enabled
          [(''picture'', ''A'', [''.png'']), (''picture'', ''C'', [''.png'']),
           (''picture'', ''B'', [''.png''])])
     = [[], [RtpVariant 1, RtpVariant 2], [], [RtpVariant 2, RtpVariant 3]]"
  by (simp add: example_simps rtp_lookup_simps)

section \<open>The add-on never enters game_rtp\<close>

lemma detect_keeps_addon_out:
  assumes "distinct (LookupAnyToRtp e dir name (EngineVersion e))"
    and "RPG2000_DonMiguelAddon \<notin> set (game_rtp st)"
  shows "RPG2000_DonMiguelAddon \<notin> set (game_rtp (fst (rtp_detect e st dir name)))"
proof -
  from assms(1)
  have "RPG2000_DonMiguelAddon
          \<notin> set (remove1 RPG2000_DonMiguelAddon (LookupAnyToRtp e dir name (EngineVersion e)))"
    by simp
  with assms(2) show ?thesis
    unfolding game_rtp_detect by (simp add: Let_def)
qed

text \<open>
  Every search built on a project-wide search that keeps the add-on out of \<open>game_rtp\<close>
  does the same.
\<close>

lemma FindDefault_tree_addon:
  assumes "keeps_addon_out project"
    and "FindDefault_tree_via project e tree name st = Inr (found, st', l)"
    and "addon_out st"
  shows "addon_out st'"
proof (cases "length (SplitPath (escape_symbol e) name) > 1")
  case True
  with assms(2)
  have "project (SplitPath (escape_symbol e) name ! 0)
          (join_MakePath [] (tl (SplitPath (escape_symbol e) name))) st = Inr (found, st', l)"
    by (simp add: FindDefault_tree_via_def Let_def)
  with assms(1) assms(3) show ?thesis unfolding keeps_addon_out_def by blast
next
  case False
  with assms(2) assms(3) show ?thesis
    by (auto simp: FindDefault_tree_via_def Let_def split: option.splits)
qed

lemma FindFile_canon_exts_addon:
  assumes "keeps_addon_out project"
  shows "FindFile_canon_exts_via project e tree canon exts st log = Inr (found, st', l)
         \<Longrightarrow> addon_out st \<Longrightarrow> addon_out st'"
proof (induction exts arbitrary: st log)
  case Nil
  then show ?case by simp
next
  case (Cons c exts)
  show ?case
  proof (cases "FindDefault_tree_via project e tree (canon @ c) st")
    case (Inl f)
    with Cons.prems show ?thesis by simp
  next
    case (Inr r)
    obtain res st1 l1 where r: "r = (res, st1, l1)" by (cases r)
    from FindDefault_tree_addon [OF assms] Inr r Cons.prems(2) have st1: "addon_out st1"
      by blast
    show ?thesis
    proof (cases "res = []")
      case True
      with Inr r Cons.prems(1)
      have "FindFile_canon_exts_via project e tree canon exts st1 (log @ l1)
              = Inr (found, st', l)" by simp
      from Cons.IH [OF this st1] show ?thesis .
    next
      case False
      with Inr r Cons.prems(1) st1 show ?thesis by simp
    qed
  qed
qed

lemma FindFile_tree_addon:
  assumes "keeps_addon_out project"
    and "FindFile_tree_via project e st tree dir name exts translate = Inr (found, st', l)"
    and "addon_out st"
  shows "addon_out st'"
proof (cases "FindFile_request e dir name translate")
  case (Pair r log)
  show ?thesis
  proof (cases r)
    case NoTranslation
    with Pair assms show ?thesis by (simp add: FindFile_tree_via_def)
  next
    case (AtRoot canon)
    with Pair assms(2)
    have "FindFile_canon_exts_via project e tree canon exts st log = Inr (found, st', l)"
      by (simp add: FindFile_tree_via_def)
    from FindFile_canon_exts_addon [OF assms(1) this assms(3)] show ?thesis .
  next
    case (InDirectory d n)
    with Pair assms show ?thesis
      by (auto simp: FindFile_tree_via_def split: sum.splits)
  qed
qed

lemma normal_search_addon:
  assumes "keeps_addon_out project"
  shows "normal_search_via project e paths dir name exts st log = Inr (found, st', l)
         \<Longrightarrow> addon_out st \<Longrightarrow> addon_out st'"
proof (induction paths arbitrary: st log)
  case Nil
  then show ?case by simp
next
  case (Cons path paths)
  show ?case
  proof (cases "FindFile_tree_via project e st path dir name exts False")
    case (Inl f)
    with Cons.prems show ?thesis by simp
  next
    case (Inr r)
    obtain res st1 l1 where r: "r = (res, st1, l1)" by (cases r)
    from FindFile_tree_addon [OF assms] Inr r Cons.prems(2) have st1: "addon_out st1"
      by blast
    show ?thesis
    proof (cases "res = []")
      case True
      with Inr r Cons.prems(1)
      have "normal_search_via project e paths dir name exts st1 (log @ l1)
              = Inr (found, st', l)" by simp
      from Cons.IH [OF this st1] show ?thesis .
    next
      case False
      with Inr r Cons.prems(1) st1 show ?thesis by simp
    qed
  qed
qed

lemma rtp_search_inner_addon:
  assumes "keeps_addon_out project"
  shows "rtp_search_inner_via project e rtp gs dir name exts b st log = Inr (found, flag, st', l)
         \<Longrightarrow> addon_out st \<Longrightarrow> addon_out st'"
proof (induction gs arbitrary: b st log)
  case Nil
  then show ?case by simp
next
  case (Cons g gs)
  obtain rtp_entry written where lk: "LookupRtpToRtp e dir name g (hit_type rtp)
                                        = (rtp_entry, written)"
    by (cases "LookupRtpToRtp e dir name g (hit_type rtp)")
  let ?flag = "case written of None \<Rightarrow> b | Some b' \<Rightarrow> b'"
  show ?case
  proof (cases "rtp_entry = []")
    case True
    with lk Cons.prems(1)
    have "rtp_search_inner_via project e rtp gs dir name exts ?flag st log
            = Inr (found, flag, st', l)" by simp
    from Cons.IH [OF this Cons.prems(2)] show ?thesis .
  next
    case False
    show ?thesis
    proof (cases "FindFile_tree_via project e st (hit_tree rtp) dir rtp_entry exts False")
      case (Inl f)
      with lk False Cons.prems(1) show ?thesis by simp
    next
      case (Inr r)
      obtain res st1 l1 where r: "r = (res, st1, l1)" by (cases r)
      from FindFile_tree_addon [OF assms] Inr r Cons.prems(2) have st1: "addon_out st1"
        by blast
      show ?thesis
      proof (cases "res = []")
        case True
        with Inr r lk False Cons.prems(1)
        have "rtp_search_inner_via project e rtp gs dir name exts ?flag st1 (log @ l1)
                = Inr (found, flag, st', l)"
          by (simp split: if_splits)
        from Cons.IH [OF this st1] show ?thesis .
      next
        case nonempty: False
        with Inr r lk False Cons.prems(1) st1 show ?thesis by simp
      qed
    qed
  qed
qed

lemma rtp_search_addon:
  assumes "keeps_addon_out project"
  shows "rtp_search_via project e rtps dir name exts b st log = Inr (found, flag, st', l)
         \<Longrightarrow> addon_out st \<Longrightarrow> addon_out st'"
proof (induction rtps arbitrary: b st log)
  case Nil
  then show ?case by simp
next
  case (Cons rtp rtps)
  show ?case
  proof (cases "rtp_search_inner_via project e rtp (game_rtp st) dir name exts b st log")
    case (Inl f)
    with Cons.prems show ?thesis by simp
  next
    case (Inr r)
    obtain res flag1 st1 l1 where r: "r = (res, flag1, st1, l1)" by (cases r)
    from rtp_search_inner_addon [OF assms] Inr r Cons.prems(2) have st1: "addon_out st1"
      by blast
    show ?thesis
    proof (cases res)
      case None
      with Inr r Cons.prems(1)
      have "rtp_search_via project e rtps dir name exts flag1 st1 l1
              = Inr (found, flag, st', l)" by simp
      from Cons.IH [OF this st1] show ?thesis .
    next
      case (Some p)
      with Inr r Cons.prems(1) st1 show ?thesis by simp
    qed
  qed
qed

lemma rtp_lookup_addon:
  assumes "keeps_addon_out project"
    and "\<forall>dir name. distinct (LookupAnyToRtp e dir name (EngineVersion e))"
    and "rtp_lookup_via project e st dir name exts b = Inr r"
    and "addon_out st"
  shows "addon_out (rtp_after r)"
proof (cases "rtp_detect e st dir name")
  case (Pair st1 log)
  from assms(2) have "distinct (LookupAnyToRtp e dir name (EngineVersion e))" by simp
  from detect_keeps_addon_out [OF this, of st] assms(4) Pair have st1: "addon_out st1"
    by (simp add: addon_out_def)
  show ?thesis
  proof (cases "game_rtp st1 = []")
    case True
    with Pair assms(3) obtain found st2 l
      where "normal_search_via project e (search_paths st1) dir name exts st1 log
               = Inr (found, st2, l)" and "rtp_after r = st2"
      by (auto simp: rtp_lookup_via_def split: sum.splits)
    with normal_search_addon [OF assms(1) _ st1] show ?thesis by simp
  next
    case False
    show ?thesis
    proof (cases "rtp_search_via project e (detected_rtp st1) dir name exts b st1 log")
      case (Inl f)
      with Pair False assms(3) show ?thesis by (simp add: rtp_lookup_via_def)
    next
      case (Inr q)
      obtain res flag st2 l where q: "q = (res, flag, st2, l)" by (cases q)
      from rtp_search_addon [OF assms(1) _ st1] Inr q have st2: "addon_out st2" by blast
      show ?thesis
      proof (cases res)
        case (Some p)
        with Inr q Pair False assms(3) st2 show ?thesis
          by (auto simp: rtp_lookup_via_def)
      next
        case None
        with Inr q Pair False assms(3) obtain found st3 l'
          where "normal_search_via project e (search_paths st2) dir name exts st2 l
                   = Inr (found, st3, l')" and "rtp_after r = st3"
          by (auto simp: rtp_lookup_via_def split: sum.splits)
        with normal_search_addon [OF assms(1) _ st2] show ?thesis by simp
      qed
    qed
  qed
qed

lemma rtp_warning_game_rtp:
  "game_rtp (fst (rtp_warning st dir name a found b)) = game_rtp st"
  by (simp add: rtp_warning_def)

text \<open>The ways in which the top-level \<open>FindFile\<close> returns.\<close>

lemma FindFile_via_returns:
  assumes "FindFile_via project e game st u dir name exts translate = Inr r"
  shows "\<exists>tree translated st1 log1. game = Some tree
     \<and> (if translate then FindFile_tree_via project e st tree dir name exts True
         else Inr ([], st, [])) = Inr (translated, st1, log1)
     \<and> ((translated \<noteq> []
            \<and> r = \<lparr>found_path = translated, state_after = st1, find_log = log1\<rparr>)
        \<or> (translated = []
            \<and> (\<exists>direct st2 log2.
                  FindFile_tree_via project e st1 tree dir name exts False
                    = Inr (direct, st2, log2)
                  \<and> ((direct \<noteq> []
                         \<and> r = \<lparr>found_path = direct, state_after = st2,
                                  find_log = log1 @ log2\<rparr>)
                     \<or> (direct = [] \<and> disable_rtp st2
                         \<and> r = \<lparr>found_path = [], state_after = st2,
                                  find_log = log1 @ log2 @ [Debug (CannotFind dir name)]\<rparr>)
                     \<or> (direct = [] \<and> \<not> disable_rtp st2
                         \<and> (\<exists>q. rtp_lookup_via project e st2 (Normalize e dir)
                                    (Normalize e name) exts u = Inr q
                                \<and> r = \<lparr>found_path = rtp_path q,
                                         state_after =
                                           fst (rtp_warning (rtp_after q) dir name
                                                  (Normalize e dir = ''music''
                                                   \<or> Normalize e dir = ''sound'')
                                                  (rtp_path q) (rtp_flag q)),
                                         find_log = log1 @ log2 @ rtp_log q
                                           @ snd (rtp_warning (rtp_after q) dir name
                                                    (Normalize e dir = ''music''
                                                     \<or> Normalize e dir = ''sound'')
                                                    (rtp_path q) (rtp_flag q))
                                           @ (if rtp_path q = []
                                              then [Debug (CannotFind dir name)]
                                              else [])\<rparr>))))))"
proof (cases game)
  case None
  with assms show ?thesis by (simp add: FindFile_via_def)
next
  case (Some tree)
  show ?thesis
  proof (cases "if translate then FindFile_tree_via project e st tree dir name exts True
                else Inr ([], st, [])")
    case (Inl f)
    with Some assms show ?thesis by (simp add: FindFile_via_def)
  next
    case (Inr r1)
    obtain translated st1 log1 where r1: "r1 = (translated, st1, log1)" by (cases r1)
    from Inr r1 have guard: "(translate \<and> translated \<noteq> []) = (translated \<noteq> [])"
      by (cases translate) simp_all
    show ?thesis
    proof (cases "translated = []")
      case False
      with Some Inr r1 guard assms show ?thesis by (simp add: FindFile_via_def)
    next
      case True
      show ?thesis
      proof (cases "FindFile_tree_via project e st1 tree dir name exts False")
        case (Inl f)
        with Some Inr r1 guard True assms show ?thesis by (simp add: FindFile_via_def)
      next
        case Inr2: (Inr r2)
        obtain direct st2 log2 where r2: "r2 = (direct, st2, log2)" by (cases r2)
        show ?thesis
        proof (cases "direct = []")
          case False
          with Some Inr r1 guard True Inr2 r2 assms show ?thesis
            by (simp add: FindFile_via_def)
        next
          case empty: True
          show ?thesis
          proof (cases "disable_rtp st2")
            case True
            with Some Inr r1 guard \<open>translated = []\<close> Inr2 r2 empty assms show ?thesis
              by (simp add: FindFile_via_def)
          next
            case False
            show ?thesis
            proof (cases "rtp_lookup_via project e st2 (Normalize e dir) (Normalize e name)
                            exts u")
              case (Inl f)
              with Some Inr r1 guard \<open>translated = []\<close> Inr2 r2 empty False assms
              show ?thesis by (simp add: FindFile_via_def)
            next
              case Inr3: (Inr q)
              with Some Inr r1 guard \<open>translated = []\<close> Inr2 r2 empty False assms
              have "r = \<lparr>found_path = rtp_path q,
                           state_after =
                             fst (rtp_warning (rtp_after q) dir name
                                    (Normalize e dir = ''music'' \<or> Normalize e dir = ''sound'')
                                    (rtp_path q) (rtp_flag q)),
                           find_log = log1 @ log2 @ rtp_log q
                             @ snd (rtp_warning (rtp_after q) dir name
                                      (Normalize e dir = ''music''
                                       \<or> Normalize e dir = ''sound'')
                                      (rtp_path q) (rtp_flag q))
                             @ (if rtp_path q = [] then [Debug (CannotFind dir name)]
                                else [])\<rparr>"
                by (simp add: FindFile_via_def Let_def)
              with Some Inr r1 \<open>translated = []\<close> Inr2 r2 empty False Inr3 show ?thesis
                by simp
            qed
          qed
        qed
      qed
    qed
  qed
qed

lemma FindFile_addon:
  assumes "keeps_addon_out project"
    and "\<forall>dir name. distinct (LookupAnyToRtp e dir name (EngineVersion e))"
    and "FindFile_via project e game st u dir name exts translate = Inr r"
    and "addon_out st"
  shows "addon_out (state_after r)"
proof -
  from FindFile_via_returns [OF assms(3)] obtain tree translated st1 log1
    where first: "(if translate then FindFile_tree_via project e st tree dir name exts True
                   else Inr ([], st, [])) = Inr (translated, st1, log1)"
      and rest: "(translated \<noteq> []
            \<and> r = \<lparr>found_path = translated, state_after = st1, find_log = log1\<rparr>)
        \<or> (translated = []
            \<and> (\<exists>direct st2 log2.
                  FindFile_tree_via project e st1 tree dir name exts False
                    = Inr (direct, st2, log2)
                  \<and> ((direct \<noteq> []
                         \<and> r = \<lparr>found_path = direct, state_after = st2,
                                  find_log = log1 @ log2\<rparr>)
                     \<or> (direct = [] \<and> disable_rtp st2
                         \<and> r = \<lparr>found_path = [], state_after = st2,
                                  find_log = log1 @ log2 @ [Debug (CannotFind dir name)]\<rparr>)
                     \<or> (direct = [] \<and> \<not> disable_rtp st2
                         \<and> (\<exists>q. rtp_lookup_via project e st2 (Normalize e dir)
                                    (Normalize e name) exts u = Inr q
                                \<and> r = \<lparr>found_path = rtp_path q,
                                         state_after =
                                           fst (rtp_warning (rtp_after q) dir name
                                                  (Normalize e dir = ''music''
                                                   \<or> Normalize e dir = ''sound'')
                                                  (rtp_path q) (rtp_flag q)),
                                         find_log = log1 @ log2 @ rtp_log q
                                           @ snd (rtp_warning (rtp_after q) dir name
                                                    (Normalize e dir = ''music''
                                                     \<or> Normalize e dir = ''sound'')
                                                    (rtp_path q) (rtp_flag q))
                                           @ (if rtp_path q = []
                                              then [Debug (CannotFind dir name)]
                                              else [])\<rparr>)))))"
    by blast
  from first FindFile_tree_addon [OF assms(1) _ assms(4)] assms(4)
  have st1: "addon_out st1" by (auto split: if_splits)
  from rest show ?thesis
  proof (elim disjE conjE exE)
    assume "r = \<lparr>found_path = translated, state_after = st1, find_log = log1\<rparr>"
    with st1 show ?thesis by simp
  next
    fix direct st2 log2
    assume "FindFile_tree_via project e st1 tree dir name exts False = Inr (direct, st2, log2)"
      and "r = \<lparr>found_path = direct, state_after = st2, find_log = log1 @ log2\<rparr>"
    with FindFile_tree_addon [OF assms(1) _ st1] show ?thesis by simp
  next
    fix direct st2 log2
    assume "FindFile_tree_via project e st1 tree dir name exts False = Inr (direct, st2, log2)"
      and "r = \<lparr>found_path = [], state_after = st2,
                  find_log = log1 @ log2 @ [Debug (CannotFind dir name)]\<rparr>"
    with FindFile_tree_addon [OF assms(1) _ st1] show ?thesis by simp
  next
    fix direct st2 log2 q
    assume t: "FindFile_tree_via project e st1 tree dir name exts False
                 = Inr (direct, st2, log2)"
      and q: "rtp_lookup_via project e st2 (Normalize e dir) (Normalize e name) exts u = Inr q"
      and r: "r = \<lparr>found_path = rtp_path q,
                      state_after =
                        fst (rtp_warning (rtp_after q) dir name
                               (Normalize e dir = ''music'' \<or> Normalize e dir = ''sound'')
                               (rtp_path q) (rtp_flag q)),
                      find_log = log1 @ log2 @ rtp_log q
                        @ snd (rtp_warning (rtp_after q) dir name
                                 (Normalize e dir = ''music'' \<or> Normalize e dir = ''sound'')
                                 (rtp_path q) (rtp_flag q))
                        @ (if rtp_path q = [] then [Debug (CannotFind dir name)] else [])\<rparr>"
    from FindFile_tree_addon [OF assms(1) t st1] have st2: "addon_out st2" .
    from rtp_lookup_addon [OF assms(1) assms(2) q st2] r show ?thesis
      by (simp add: addon_out_def rtp_warning_game_rtp)
  qed
qed

lemma no_further_search_addon: "keeps_addon_out no_further_search"
  by (simp add: keeps_addon_out_def no_further_search_def)

lemma FindDefault_dir_addon:
  assumes "\<forall>dir name. distinct (LookupAnyToRtp e dir name (EngineVersion e))"
  shows "keeps_addon_out (FindDefault_dir e game u)"
  unfolding keeps_addon_out_def
proof (intro allI impI)
  fix dir name st found st' log
  assume call: "FindDefault_dir e game u dir name st = Inr (found, st', log)"
    and out: "addon_out st"
  from call obtain r
    where "FindFile_via no_further_search e game st u dir name [[]] False = Inr r"
      and "st' = state_after r"
    by (auto simp: FindDefault_dir_def split: sum.splits)
  with FindFile_addon [OF no_further_search_addon assms _ out] show "addon_out st'" by simp
qed

text \<open>
  Claim C3. With a table that lists every variant at most once for a request (the
  interface gives the result as a set), and a session that starts without the add-on in
  \<open>game_rtp\<close> (the initial state has it empty), no state of the session has the add-on in
  \<open>game_rtp\<close>, whatever the table returns and whether or not it lists the add-on, for
  every extension list: a lookup the project-wide search makes on the way erases the
  add-on as well.
\<close>

theorem addon_never_in_game_rtp:
  assumes "\<forall>dir name. distinct (LookupAnyToRtp e dir name (EngineVersion e))"
    and "RPG2000_DonMiguelAddon \<notin> set (game_rtp st)"
  shows "\<forall>s \<in> set (rtp_session e game u st requests).
           RPG2000_DonMiguelAddon \<notin> set (game_rtp s)"
  using assms(2)
proof (induction requests arbitrary: st)
  case Nil
  then show ?case by simp
next
  case (Cons request requests)
  obtain dir name exts where request: "request = (dir, name, exts)" by (cases request)
  show ?case
  proof (cases "rtp_lookup e game u st dir name exts False")
    case (Inl f)
    with request Cons.prems show ?thesis by simp
  next
    case (Inr r)
    from Cons.prems have "addon_out st" by (simp add: addon_out_def)
    from rtp_lookup_addon [OF FindDefault_dir_addon [OF assms(1)] assms(1) _ this] Inr
    have "RPG2000_DonMiguelAddon \<notin> set (game_rtp (rtp_after r))"
      by (simp add: rtp_lookup_def addon_out_def)
    from Cons.IH [OF this] request Inr Cons.prems show ?thesis by simp
  qed
qed

theorem addon_never_in_game_rtp_witness:
  "(\<forall>dir name. distinct (LookupAnyToRtp (env_example oracle_addon no_translation) dir name
                           (EngineVersion (env_example oracle_addon no_translation))))
   \<and> (\<forall>dir name. RPG2000_DonMiguelAddon
          \<in> set (LookupAnyToRtp (env_example oracle_addon no_translation) dir name
                   (EngineVersion (env_example oracle_addon no_translation))))
   \<and> RPG2000_DonMiguelAddon \<notin> set (game_rtp rtp_enabled)
   \<and> map game_rtp (rtp_session (env_example oracle_addon no_translation)
          (Some project_example) False rtp_enabled
          [(''picture'', ''A'', [''.png'']), (''picture'', ''B'', [''.png''])])
       = [[], [RtpVariant 1, RtpVariant 2], [RtpVariant 2]]
   \<and> list_all (\<lambda>s. RPG2000_DonMiguelAddon \<notin> set (game_rtp s))
        (rtp_session (env_example oracle_addon no_translation)
          (Some project_example) False rtp_enabled
          [(''picture'', ''A'', [''.png'']), (''picture'', ''B'', [''.png''])])"
proof -
  let ?e = "env_example oracle_addon no_translation"
  have h1: "\<forall>dir name. distinct (LookupAnyToRtp ?e dir name (EngineVersion ?e))"
    by (simp add: example_simps)
  have listed: "\<forall>dir name. RPG2000_DonMiguelAddon
                  \<in> set (LookupAnyToRtp ?e dir name (EngineVersion ?e))"
    by (simp add: example_simps)
  have h2: "RPG2000_DonMiguelAddon \<notin> set (game_rtp rtp_enabled)"
    by (simp add: example_simps)
  have run: "map game_rtp (rtp_session ?e (Some project_example) False rtp_enabled
          [(''picture'', ''A'', [''.png'']), (''picture'', ''B'', [''.png''])])
       = [[], [RtpVariant 1, RtpVariant 2], [RtpVariant 2]]"
    by (simp add: example_simps rtp_lookup_simps)
  from addon_never_in_game_rtp [OF h1 h2] h1 listed h2 run
  show ?thesis unfolding list_all_iff by blast
qed

section \<open>The flag of rtp_lookup\<close>

lemma rtp_search_inner_found:
  "rtp_search_inner_via project e rtp gs dir name exts b st log = Inr (Some found, flag, st', l)
   \<Longrightarrow> found \<noteq> [] \<and> flag"
proof (induction gs arbitrary: b st log)
  case Nil
  then show ?case by simp
next
  case (Cons g gs)
  then show ?case
    by (auto simp: Let_def split: prod.splits if_splits sum.splits)
qed

lemma rtp_search_found:
  "rtp_search_via project e rtps dir name exts b st log = Inr (Some found, flag, st', l)
   \<Longrightarrow> found \<noteq> [] \<and> flag"
proof (induction rtps arbitrary: b st log)
  case Nil
  then show ?case by simp
next
  case (Cons rtp rtps)
  then show ?case
    by (auto split: prod.splits option.splits sum.splits dest: rtp_search_inner_found)
qed

lemma rtp_lookup_flag:
  "rtp_lookup_via project e st dir name exts is_rtp_asset = Inr r \<Longrightarrow> rtp_flag r
   \<Longrightarrow> rtp_path r \<noteq> []"
  by (auto simp: rtp_lookup_via_def split: prod.splits if_splits sum.splits option.splits
      dest: rtp_search_found)

text \<open>
  Claim C10. When \<open>rtp_lookup\<close> returns with \<open>is_rtp_asset\<close> set, the returned path is
  not empty, whatever the flag held on entry; so an empty result always comes with the
  flag cleared.
\<close>

theorem rtp_lookup_flag_implies_found:
  assumes "rtp_lookup e game u st dir name exts is_rtp_asset = Inr r" and "rtp_flag r"
  shows "rtp_path r \<noteq> []"
  using assms unfolding rtp_lookup_def by (rule rtp_lookup_flag)

theorem rtp_lookup_flag_implies_found_witness:
  "rtp_lookup (env_example oracle_one same_name) (Some project_example) False rtp_installed
       ''picture'' ''hero'' [''.bmp'', ''.png''] False
     = Inr \<lparr>rtp_path = ''/rtp/Picture/Hero.png'', rtp_flag = True,
            rtp_after = rtp_installed\<lparr>game_rtp := [RtpVariant 1]\<rparr>,
            rtp_log = [Debug (GameUsesRtp (RtpVariant 1))]\<rparr>
   \<and> ''/rtp/Picture/Hero.png'' \<noteq> []"
proof -
  let ?r = "\<lparr>rtp_path = ''/rtp/Picture/Hero.png'', rtp_flag = True,
            rtp_after = rtp_installed\<lparr>game_rtp := [RtpVariant 1]\<rparr>,
            rtp_log = [Debug (GameUsesRtp (RtpVariant 1))]\<rparr>"
  have call: "rtp_lookup (env_example oracle_one same_name) (Some project_example) False
       rtp_installed ''picture'' ''hero'' [''.bmp'', ''.png''] False = Inr ?r"
    by (simp add: example_simps rtp_lookup_simps FindFile_tree_simps)
  have flag: "rtp_flag ?r" by simp
  from rtp_lookup_flag_implies_found [OF call flag] call show ?thesis by simp
qed

section \<open>The warnings of the top-level FindFile\<close>

text \<open>
  Claim C4, the code at a session that contradicts it. The tables say the asset belongs to
  the RTP (\<open>LookupAnyToRtp\<close> lists a variant, \<open>LookupRtpToRtp\<close> translates the name and
  sets the flag), no tree has it, the game has no full-package flag and the category is
  not audio. Two requests log no warning at all, where the claim has exactly one: the
  lambda \<open>normal_search\<close> clears \<open>is_rtp_asset\<close> before \<open>FindFile\<close> tests it, so the
  branch that logs the missing-asset warning is never taken.
\<close>

theorem missing_rtp_asset_not_warned:
  "LookupAnyToRtp (env_example oracle_one same_name) ''picture'' ''ghost'' 2000 = [RtpVariant 1]
   \<and> LookupRtpToRtp (env_example oracle_one same_name) ''picture'' ''ghost''
         (RtpVariant 1) (RtpVariant 1) = (''ghost'', Some True)
   \<and> game_has_full_package_flag rtp_installed = False
   \<and> FindFile_session (env_example oracle_one same_name) (Some project_example) rtp_installed
         False [''.png''] [(''picture'', ''ghost''), (''picture'', ''ghost'')]
       = Inr (rtp_installed\<lparr>game_rtp := [RtpVariant 1]\<rparr>,
              [Debug (GameUsesRtp (RtpVariant 1)), Debug (CannotFind ''picture'' ''ghost''),
               Debug (CannotFind ''picture'' ''ghost'')])"
  by (simp add: example_simps FindFile_def FindFile_via_def rtp_lookup_via_def rtp_detect_def
        rtp_warning_def FindFile_tree_simps)

section \<open>A tree without the members of its directories\<close>

text \<open>
  Claim C9, the code at an input that contradicts it. \<open>CreateDirectoryTree\<close> in mode
  \<open>ALL\<close> fills \<open>directories\<close> and leaves \<open>sub_members\<close> empty; a search for a file in a
  directory of that tree, on the tree or through the top-level \<open>FindFile\<close> with the tree
  as the project, passes the check of \<open>directories.find\<close> and dereferences the end
  iterator \<open>sub_members.find\<close> returns.
\<close>

theorem FindFile_dereferences_end:
  "CreateDirectoryTree 2 env_lower disk_example ''/game'' ALL_Mode
     = Inr (Some \<lparr>directory_path = ''/game'', files = [''secret'' \<mapsto> ''Secret''],
                  directories = [''music'' \<mapsto> ''Music''], sub_members = Map.empty\<rparr>, [])
   \<and> FindFile_tree env_lower None False rtp_enabled
        \<lparr>directory_path = ''/game'', files = [''secret'' \<mapsto> ''Secret''],
         directories = [''music'' \<mapsto> ''Music''], sub_members = Map.empty\<rparr>
        ''Music'' ''Town'' [''.ogg''] False
       = Inl InvalidDereference
   \<and> FindFile env_lower
        (Some \<lparr>directory_path = ''/game'', files = [''secret'' \<mapsto> ''Secret''],
               directories = [''music'' \<mapsto> ''Music''], sub_members = Map.empty\<rparr>)
        rtp_enabled False ''Music'' ''Town'' [''.ogg''] False
       = Inl InvalidDereference"
proof (intro conjI)
  show "CreateDirectoryTree 2 env_lower disk_example ''/game'' ALL_Mode
     = Inr (Some \<lparr>directory_path = ''/game'', files = [''secret'' \<mapsto> ''Secret''],
                  directories = [''music'' \<mapsto> ''Music''], sub_members = Map.empty\<rparr>, [])"
    by (simp add: CreateDirectoryTree_def disk_example_def env_lower_def env_example_def
          numeral_2_eq_2 lower_char_def)
next
  show "FindFile_tree env_lower None False rtp_enabled
        \<lparr>directory_path = ''/game'', files = [''secret'' \<mapsto> ''Secret''],
         directories = [''music'' \<mapsto> ''Music''], sub_members = Map.empty\<rparr>
        ''Music'' ''Town'' [''.ogg''] False
       = Inl InvalidDereference"
    by (simp add: env_lower_def example_simps FindFile_tree_simps lower_char_def)
next
  show "FindFile env_lower
        (Some \<lparr>directory_path = ''/game'', files = [''secret'' \<mapsto> ''Secret''],
               directories = [''music'' \<mapsto> ''Music''], sub_members = Map.empty\<rparr>)
        rtp_enabled False ''Music'' ''Town'' [''.ogg''] False
       = Inl InvalidDereference"
    by (simp add: env_lower_def example_simps FindFile_def FindFile_via_def FindFile_tree_simps
          lower_char_def)
qed

text \<open>
  The tree \<open>CreateDirectoryTree\<close> builds in mode \<open>RECURSIVE\<close> has the members of its
  directories, and the same search finds the file.
\<close>

lemma CreateDirectoryTree_recursive_example:
  "CreateDirectoryTree 2 env_lower disk_example ''/game'' RECURSIVE
     = Inr (Some \<lparr>directory_path = ''/game'', files = [''secret'' \<mapsto> ''Secret''],
                  directories = [''music'' \<mapsto> ''Music''],
                  sub_members = [''music'' \<mapsto> [''town.ogg'' \<mapsto> ''Town.ogg'']]\<rparr>, [])
   \<and> FindFile_tree env_lower None False rtp_enabled
        \<lparr>directory_path = ''/game'', files = [''secret'' \<mapsto> ''Secret''],
         directories = [''music'' \<mapsto> ''Music''],
         sub_members = [''music'' \<mapsto> [''town.ogg'' \<mapsto> ''Town.ogg'']]\<rparr>
        ''Music'' ''Town'' [''.ogg''] False
       = Inr (''/game/Music/Town.ogg'', rtp_enabled, [])"
proof
  show "CreateDirectoryTree 2 env_lower disk_example ''/game'' RECURSIVE
     = Inr (Some \<lparr>directory_path = ''/game'', files = [''secret'' \<mapsto> ''Secret''],
                  directories = [''music'' \<mapsto> ''Music''],
                  sub_members = [''music'' \<mapsto> [''town.ogg'' \<mapsto> ''Town.ogg'']]\<rparr>, [])"
    by (simp add: CreateDirectoryTree_def disk_example_def env_lower_def env_example_def
          numeral_2_eq_2 lower_char_def MakePath_def replace_def backslash_def)
next
  show "FindFile_tree env_lower None False rtp_enabled
        \<lparr>directory_path = ''/game'', files = [''secret'' \<mapsto> ''Secret''],
         directories = [''music'' \<mapsto> ''Music''],
         sub_members = [''music'' \<mapsto> [''town.ogg'' \<mapsto> ''Town.ogg'']]\<rparr>
        ''Music'' ''Town'' [''.ogg''] False
       = Inr (''/game/Music/Town.ogg'', rtp_enabled, [])"
    by (simp add: env_lower_def example_simps FindFile_tree_simps lower_char_def)
qed

section \<open>When FindFile on a tree stays under the tree's base\<close>










section \<open>The lookup order of the top-level FindFile\<close>



















section \<open>Collisions during the scan\<close>

text \<open>
  Claim C8, the code at a directory that contradicts it. The directory holds the
  sub-directories \<open>Music\<close> and \<open>MUSIC\<close> and the files \<open>Hero.png\<close> and \<open>HERO.PNG\<close>; each
  pair normalizes to one key. The mode \<open>FILES\<close> skips the sub-directories and logs
  nothing; the mode \<open>ALL\<close> reports the second sub-directory and not the second file; the
  mode \<open>RECURSIVE\<close> logs nothing, and of the files \<open>Music/a.ogg\<close> and \<open>MUSIC/A.ogg\<close> with
  one key it keeps the first scanned, not the last.
\<close>

theorem collisions_not_reported:
  "map lower_char ''Hero.png'' = map lower_char ''HERO.PNG''
   \<and> map lower_char ''Music'' = map lower_char ''MUSIC''
   \<and> GetDirectoryMembers 1 env_lower disk_colliding ''/game'' FILES []
      = Inr (\<lparr>base = ''/game'', member_files = [(''hero.png'', ''HERO.PNG'')],
              member_directories = []\<rparr>, [])
   \<and> GetDirectoryMembers 1 env_lower disk_colliding ''/game'' ALL_Mode []
      = Inr (\<lparr>base = ''/game'', member_files = [(''hero.png'', ''HERO.PNG'')],
              member_directories = [(''music'', ''MUSIC'')]\<rparr>,
             [Warning (FolderTwice ''MUSIC''), Warning FolderTwiceHint])
   \<and> GetDirectoryMembers 2 env_lower disk_colliding ''/game'' RECURSIVE []
      = Inr (\<lparr>base = ''/game'',
              member_files = [(''music/a.ogg'', ''Music/a.ogg''), (''hero.png'', ''HERO.PNG'')],
              member_directories = []\<rparr>, [])"
proof (intro conjI)
  show "map lower_char ''Hero.png'' = map lower_char ''HERO.PNG''"
    by (simp add: lower_char_def)
  show "map lower_char ''Music'' = map lower_char ''MUSIC''"
    by (simp add: lower_char_def)
  show "GetDirectoryMembers 1 env_lower disk_colliding ''/game'' FILES []
      = Inr (\<lparr>base = ''/game'', member_files = [(''hero.png'', ''HERO.PNG'')],
              member_directories = []\<rparr>, [])"
    by (simp add: disk_colliding_def env_lower_def env_example_def lower_char_def)
  show "GetDirectoryMembers 1 env_lower disk_colliding ''/game'' ALL_Mode []
      = Inr (\<lparr>base = ''/game'', member_files = [(''hero.png'', ''HERO.PNG'')],
              member_directories = [(''music'', ''MUSIC'')]\<rparr>,
             [Warning (FolderTwice ''MUSIC''), Warning FolderTwiceHint])"
    by (simp add: disk_colliding_def env_lower_def env_example_def lower_char_def)
  show "GetDirectoryMembers 2 env_lower disk_colliding ''/game'' RECURSIVE []
      = Inr (\<lparr>base = ''/game'',
              member_files = [(''music/a.ogg'', ''Music/a.ogg''), (''hero.png'', ''HERO.PNG'')],
              member_directories = []\<rparr>, [])"
    by (simp add: numeral_2_eq_2 disk_colliding_def env_lower_def env_example_def
          lower_char_def MakePath_def replace_def backslash_def)
qed

lemma last_write_index_Cons:
  "m(Normalize e n \<mapsto> n) ++ last_write_index e names = m ++ last_write_index e (n # names)"
  by (rule ext) (auto simp: last_write_index_def map_add_def split: option.splits)

lemma flat_scan:
  assumes "m \<noteq> RECURSIVE"
  shows "\<exists>result' log'.
      GetDirectoryMembers_scan recurse e path m parent entries result log = Inr (result', log')
      \<and> base result' = base result
      \<and> map_of (member_directories result')
          = map_of (member_directories result)
              ++ last_write_index e (scanned_directories m entries)
      \<and> map_of (member_files result')
          = map_of (member_files result) ++ last_write_index e (scanned_files m entries)
      \<and> log' = log @ collision_log e (dom (map_of (member_directories result)))
                        (scanned_directories m entries)"
proof (induction entries arbitrary: result log)
  case Nil
  then show ?case
    by (simp add: last_write_index_def scanned_directories_def scanned_files_def)
next
  case (Cons entry entries)
  obtain name is_dir where entry: "entry = (name, is_dir)" by (cases entry)
  show ?case
  proof (cases "name = ''.'' \<or> name = ''..''
                \<or> (m = FILES \<and> is_dir) \<or> (m = DIRECTORIES \<and> \<not> is_dir)")
    case True
    then have "GetDirectoryMembers_scan recurse e path m parent (entry # entries) result log
                 = GetDirectoryMembers_scan recurse e path m parent entries result log"
      using entry by auto
    moreover from True entry
    have "scanned_directories m (entry # entries) = scanned_directories m entries"
      and "scanned_files m (entry # entries) = scanned_files m entries"
      by (auto simp: scanned_directories_def scanned_files_def)
    ultimately show ?thesis using Cons.IH [of result log] by simp
  next
    case False
    show ?thesis
    proof (cases is_dir)
      case True
      let ?k = "Normalize e name"
      let ?result = "result\<lparr>member_directories := AList.update ?k name (member_directories result)\<rparr>"
      let ?log = "if map_of (member_directories result) ?k \<noteq> None
                  then log @ [Warning (FolderTwice name), Warning FolderTwiceHint] else log"
      from True False assms entry
      have step: "GetDirectoryMembers_scan recurse e path m parent (entry # entries) result log
                 = GetDirectoryMembers_scan recurse e path m parent entries ?result ?log"
        by (simp add: Let_def)
      from True False entry
      have ds: "scanned_directories m (entry # entries) = name # scanned_directories m entries"
        and fs: "scanned_files m (entry # entries) = scanned_files m entries"
        by (auto simp: scanned_directories_def scanned_files_def)
      have dirs: "map_of (member_directories ?result) = (map_of (member_directories result))(?k \<mapsto> name)"
        by (simp add: update_conv')
      have idx: "(map_of (member_directories result))(?k \<mapsto> name)
                   ++ last_write_index e (scanned_directories m entries)
                 = map_of (member_directories result)
                   ++ last_write_index e (name # scanned_directories m entries)"
        by (rule last_write_index_Cons)
      have keys: "dom (map_of (member_directories ?result))
                    = insert ?k (dom (map_of (member_directories result)))"
        by (simp add: update_conv')
      from Cons.IH [of ?result ?log] obtain result' log'
        where "GetDirectoryMembers_scan recurse e path m parent entries ?result ?log
                 = Inr (result', log')"
          and "base result' = base ?result"
          and "map_of (member_directories result')
                 = map_of (member_directories ?result)
                     ++ last_write_index e (scanned_directories m entries)"
          and "map_of (member_files result')
                 = map_of (member_files ?result) ++ last_write_index e (scanned_files m entries)"
          and "log' = ?log @ collision_log e (dom (map_of (member_directories ?result)))
                        (scanned_directories m entries)"
        by blast
      then show ?thesis
        unfolding step ds fs keys dirs idx by (simp add: domIff)
    next
      case plain: False
      let ?k = "Normalize e name"
      let ?result = "result\<lparr>member_files := AList.update ?k name (member_files result)\<rparr>"
      from plain False assms entry
      have step: "GetDirectoryMembers_scan recurse e path m parent (entry # entries) result log
                 = GetDirectoryMembers_scan recurse e path m parent entries ?result log"
        by (simp add: Let_def)
      from plain False entry
      have ds: "scanned_directories m (entry # entries) = scanned_directories m entries"
        and fs: "scanned_files m (entry # entries) = name # scanned_files m entries"
        by (auto simp: scanned_directories_def scanned_files_def)
      have fls: "map_of (member_files ?result) = (map_of (member_files result))(?k \<mapsto> name)"
        by (simp add: update_conv')
      have idx: "(map_of (member_files result))(?k \<mapsto> name)
                   ++ last_write_index e (scanned_files m entries)
                 = map_of (member_files result)
                   ++ last_write_index e (name # scanned_files m entries)"
        by (rule last_write_index_Cons)
      from Cons.IH [of ?result log] obtain result' log'
        where "GetDirectoryMembers_scan recurse e path m parent entries ?result log
                 = Inr (result', log')"
          and "base result' = base ?result"
          and "map_of (member_directories result')
                 = map_of (member_directories ?result)
                     ++ last_write_index e (scanned_directories m entries)"
          and "map_of (member_files result')
                 = map_of (member_files ?result) ++ last_write_index e (scanned_files m entries)"
          and "log' = log @ collision_log e (dom (map_of (member_directories ?result)))
                        (scanned_directories m entries)"
        by blast
      then show ?thesis
        unfolding step ds fs fls idx by simp
    qed
  qed
qed

lemma collision_log_append:
  "collision_log e keys (xs @ ys)
     = collision_log e keys xs @ collision_log e (keys \<union> Normalize e ` set xs) ys"
  by (induction xs arbitrary: keys) simp_all

lemma collision_log_later:
  assumes "Normalize e n1 = Normalize e n2"
  shows "Warning (FolderTwice n2) \<in> set (collision_log e keys (xs @ n1 # ys @ n2 # zs))"
proof -
  have "Normalize e n2 \<in> (keys \<union> Normalize e ` set (xs @ n1 # ys))"
    using assms by simp
  then show ?thesis
    using collision_log_append [of e keys "xs @ n1 # ys" "n2 # zs"] by simp
qed

lemma last_write_index_last:
  "Normalize e n \<notin> Normalize e ` set zs \<Longrightarrow>
   last_write_index e (xs @ n # zs) (Normalize e n) = Some n"
proof -
  assume "Normalize e n \<notin> Normalize e ` set zs"
  then have "map_of (rev (map (\<lambda>n. (Normalize e n, n)) zs)) (Normalize e n) = None"
    by (simp add: map_of_eq_None_iff image_image)
  then show ?thesis
    by (simp add: last_write_index_def map_add_def)
qed

lemma flat_scan_directory:
  assumes "m \<noteq> RECURSIVE" and "pf path = Some (FsDir True entries)"
  shows "\<exists>result. GetDirectoryMembers (Suc depth) e pf path m parent
            = Inr (result, collision_log e {} (scanned_directories m entries))
          \<and> map_of (member_directories result) = last_write_index e (scanned_directories m entries)
          \<and> map_of (member_files result) = last_write_index e (scanned_files m entries)"
  using flat_scan [OF assms(1),
      of "\<lambda>sub_path sub_parent. GetDirectoryMembers depth e pf sub_path RECURSIVE sub_parent"
         e path parent entries
         "\<lparr>base = path, member_files = [], member_directories = []\<rparr>" "[]"] assms(2)
  by auto

text \<open>The mode \<open>RECURSIVE\<close>.\<close>

lemma insert_range_map_of: "map_of (insert_range m r) = map_of r ++ map_of m"
proof (induction r arbitrary: m)
  case Nil
  show ?case by simp
next
  case (Cons kv r)
  obtain k v where kv: "kv = (k, v)" by (cases kv)
  show ?case
    unfolding kv
    by (rule ext) (auto simp: Cons map_add_def split: option.splits)
qed

lemma recursive_scan:
  assumes sub: "\<And>p q rdir l. recurse p q = Inr (rdir, l) \<Longrightarrow>
                  map_of (member_files rdir) = R p q \<and> member_directories rdir = []
                  \<and> list_all is_debug l"
  shows "GetDirectoryMembers_scan recurse e path RECURSIVE parent entries result log
           = Inr (result', log')
         \<Longrightarrow> map_of (member_files result')
               = fold (recursive_step R e path parent) entries (map_of (member_files result))
             \<and> member_directories result' = member_directories result
             \<and> (list_all is_debug log \<longrightarrow> list_all is_debug log')"
proof (induction entries arbitrary: result log)
  case Nil
  then show ?case by simp
next
  case (Cons entry entries)
  obtain name is_dir where entry: "entry = (name, is_dir)" by (cases entry)
  show ?case
  proof (cases "name = ''.'' \<or> name = ''..''")
    case True
    with entry Cons.prems
    have "GetDirectoryMembers_scan recurse e path RECURSIVE parent entries result log
            = Inr (result', log')" by auto
    from Cons.IH [OF this] True entry show ?thesis by auto
  next
    case False
    show ?thesis
    proof (cases is_dir)
      case True
      show ?thesis
      proof (cases "recurse (MakePath path name) (MakePath parent name)")
        case (Inl f)
        with True False entry Cons.prems show ?thesis by simp
      next
        case (Inr r)
        obtain rdir rlog where r: "r = (rdir, rlog)" by (cases r)
        let ?result = "result\<lparr>member_files :=
                                 insert_range (member_files result) (member_files rdir),
                               member_directories :=
                                 insert_range (member_directories result)
                                   (member_directories rdir)\<rparr>"
        from sub Inr r
        have files: "map_of (member_files rdir) = R (MakePath path name) (MakePath parent name)"
          and dirs: "member_directories rdir = []" and rlog: "list_all is_debug rlog"
          by blast+
        from True False entry Inr r Cons.prems
        have "GetDirectoryMembers_scan recurse e path RECURSIVE parent entries ?result
                (log @ rlog) = Inr (result', log')" by simp
        from Cons.IH [OF this] True False entry files dirs rlog show ?thesis
          by (simp add: insert_range_map_of)
      qed
    next
      case plain: False
      let ?result = "result\<lparr>member_files :=
                AList.update (Normalize e (MakePath parent name)) (MakePath parent name)
                  (member_files result)\<rparr>"
      have upd: "map_of (member_files ?result)
                   = (map_of (member_files result))
                       (Normalize e (MakePath parent name) \<mapsto> MakePath parent name)"
        by (simp add: update_conv')
      have dirs: "member_directories ?result = member_directories result" by simp
      from plain False entry Cons.prems
      have "GetDirectoryMembers_scan recurse e path RECURSIVE parent entries ?result log
              = Inr (result', log')" by simp
      from Cons.IH [OF this]
      have "map_of (member_files result')
              = fold (recursive_step R e path parent) entries (map_of (member_files ?result))"
        and "member_directories result' = member_directories ?result"
        and "list_all is_debug log \<longrightarrow> list_all is_debug log'"
        by blast+
      then show ?thesis unfolding upd dirs using plain False entry by simp
    qed
  qed
qed

lemma recursive_scan_index:
  "GetDirectoryMembers depth e pf path RECURSIVE parent = Inr (result, log)
   \<Longrightarrow> map_of (member_files result) = recursive_index depth e pf path parent
       \<and> member_directories result = [] \<and> list_all is_debug log"
proof (induction depth arbitrary: path parent result log)
  case 0
  then show ?case by simp
next
  case (Suc depth)
  show ?case
  proof (cases "pf path")
    case None
    with Suc.prems show ?thesis by simp
  next
    case (Some node)
    show ?thesis
    proof (cases node)
      case FsFile
      with Some Suc.prems show ?thesis by simp
    next
      case (FsDir readable entries)
      show ?thesis
      proof (cases readable)
        case False
        with FsDir Some Suc.prems show ?thesis by auto
      next
        case True
        with FsDir Some Suc.prems
        have "GetDirectoryMembers_scan
                (\<lambda>sub_path sub_parent. GetDirectoryMembers depth e pf sub_path RECURSIVE sub_parent)
                e path RECURSIVE parent entries
                \<lparr>base = path, member_files = [], member_directories = []\<rparr> []
                = Inr (result, log)" by simp
        from recursive_scan [of "\<lambda>sub_path sub_parent.
              GetDirectoryMembers depth e pf sub_path RECURSIVE sub_parent"
            "\<lambda>sub_path sub_parent. recursive_index depth e pf sub_path sub_parent",
            OF Suc.IH this] True FsDir Some
        show ?thesis by simp
      qed
    qed
  qed
qed

lemma scan_returns:
  assumes sub: "\<And>name. (name, True) \<in> set entries \<Longrightarrow> name \<noteq> ''.'' \<Longrightarrow> name \<noteq> ''..''
                  \<Longrightarrow> \<exists>r. recurse (MakePath path name) (MakePath parent name) = Inr r"
  shows "\<exists>r. GetDirectoryMembers_scan recurse e path RECURSIVE parent entries result log = Inr r"
  using sub
proof (induction entries arbitrary: result log)
  case Nil
  show ?case by simp
next
  case (Cons entry entries)
  obtain name is_dir where entry: "entry = (name, is_dir)" by (cases entry)
  from Cons.prems
  have tail: "\<And>result log.
     \<exists>r. GetDirectoryMembers_scan recurse e path RECURSIVE parent entries result log = Inr r"
    by (intro Cons.IH) auto
  show ?case
  proof (cases "name \<noteq> ''.'' \<and> name \<noteq> ''..'' \<and> is_dir")
    case True
    with Cons.prems [of name] entry
    obtain rdir rlog where "recurse (MakePath path name) (MakePath parent name)
                              = Inr (rdir, rlog)"
      by auto
    with True entry tail show ?thesis by simp
  next
    case False
    with entry tail show ?thesis by auto
  qed
qed

lemma GetDirectoryMembers_returns:
  "scannable depth pf path
   \<Longrightarrow> \<exists>r. GetDirectoryMembers depth e pf path RECURSIVE parent = Inr r"
proof (induction depth arbitrary: path parent)
  case 0
  then show ?case by simp
next
  case (Suc depth)
  from Suc.prems obtain readable entries where node: "pf path = Some (FsDir readable entries)"
    and subs: "\<not> readable
          \<or> list_all (\<lambda>i. fst i = ''.'' \<or> fst i = ''..'' \<or> \<not> snd i
                          \<or> scannable depth pf (MakePath path (fst i))) entries"
    by (auto split: option.splits fsnode.splits)
  show ?case
  proof (cases readable)
    case False
    with node show ?thesis by simp
  next
    case True
    have "\<exists>r. GetDirectoryMembers_scan
                (\<lambda>sub_path sub_parent. GetDirectoryMembers depth e pf sub_path RECURSIVE sub_parent)
                e path RECURSIVE parent entries
                \<lparr>base = path, member_files = [], member_directories = []\<rparr> [] = Inr r"
    proof (rule scan_returns)
      fix name
      assume "(name, True) \<in> set entries" and "name \<noteq> ''.''" and "name \<noteq> ''..''"
      with subs True have "scannable depth pf (MakePath path name)"
        by (auto simp: list_all_iff)
      from Suc.IH [OF this]
      show "\<exists>r. GetDirectoryMembers depth e pf (MakePath path name) RECURSIVE
                   (MakePath parent name) = Inr r" .
    qed
    with node True show ?thesis by simp
  qed
qed

text \<open>
  Claim C8 as the code has it. A scan of a directory that opens, in one of the modes
  \<open>FILES\<close>, \<open>DIRECTORIES\<close> and \<open>ALL\<close>, returns; its directory index and its file index map
  every key to the last scanned name with that key (last write wins); its log is the
  collision log of the sub-directories it indexes: two warnings for every sub-directory
  whose key an earlier sub-directory had. Files add nothing to the log, and the mode
  \<open>FILES\<close> indexes no sub-directory and logs nothing. A scan in mode \<open>RECURSIVE\<close> of a
  directory it gets through returns with debug entries only in its log, an empty
  directory index, and the file index in which a file overwrites what its key held and
  the files of a sub-directory take only the keys that are still free.
\<close>

theorem scan_collisions:
  assumes "pf path = Some (FsDir True entries)"
  shows "(m \<noteq> RECURSIVE \<longrightarrow>
            (\<exists>result. GetDirectoryMembers (Suc depth) e pf path m parent
                 = Inr (result, collision_log e {} (scanned_directories m entries))
               \<and> map_of (member_directories result)
                   = last_write_index e (scanned_directories m entries)
               \<and> map_of (member_files result) = last_write_index e (scanned_files m entries)))
         \<and> scanned_directories FILES entries = []
         \<and> (m = RECURSIVE \<and> scannable (Suc depth) pf path \<longrightarrow>
              (\<exists>result log. GetDirectoryMembers (Suc depth) e pf path m parent
                   = Inr (result, log)
                 \<and> map_of (member_files result) = recursive_index (Suc depth) e pf path parent
                 \<and> member_directories result = []
                 \<and> list_all is_debug log))
         \<and> (Normalize e n1 = Normalize e n2 \<longrightarrow>
              Warning (FolderTwice n2) \<in> set (collision_log e {} (xs @ n1 # ys @ n2 # zs)))
         \<and> (Normalize e n2 \<notin> Normalize e ` set zs \<longrightarrow>
              last_write_index e (xs @ n1 # ys @ n2 # zs) (Normalize e n2) = Some n2)"
proof (intro conjI impI)
  assume "m \<noteq> RECURSIVE"
  from flat_scan_directory [where pf = pf and path = path, OF this assms]
  show "\<exists>result. GetDirectoryMembers (Suc depth) e pf path m parent
                 = Inr (result, collision_log e {} (scanned_directories m entries))
               \<and> map_of (member_directories result)
                   = last_write_index e (scanned_directories m entries)
               \<and> map_of (member_files result) = last_write_index e (scanned_files m entries)" .
next
  show "scanned_directories FILES entries = []" by (simp add: scanned_directories_def)
next
  assume "m = RECURSIVE \<and> scannable (Suc depth) pf path"
  then have m: "m = RECURSIVE" and s: "scannable (Suc depth) pf path" by blast+
  from GetDirectoryMembers_returns [OF s, of e parent] obtain result log
    where r: "GetDirectoryMembers (Suc depth) e pf path RECURSIVE parent = Inr (result, log)"
    by fastforce
  from recursive_scan_index [OF r] r m
  show "\<exists>result log. GetDirectoryMembers (Suc depth) e pf path m parent = Inr (result, log)
                 \<and> map_of (member_files result) = recursive_index (Suc depth) e pf path parent
                 \<and> member_directories result = []
                 \<and> list_all is_debug log"
    by blast
next
  assume "Normalize e n1 = Normalize e n2"
  from collision_log_later [OF this]
  show "Warning (FolderTwice n2) \<in> set (collision_log e {} (xs @ n1 # ys @ n2 # zs))" .
next
  assume "Normalize e n2 \<notin> Normalize e ` set zs"
  from last_write_index_last [OF this, of "xs @ n1 # ys"]
  show "last_write_index e (xs @ n1 # ys @ n2 # zs) (Normalize e n2) = Some n2" by simp
qed

theorem scan_collisions_witness:
  "disk_colliding ''/game''
     = Some (FsDir True [(''Music'', True), (''Hero.png'', False), (''MUSIC'', True),
                         (''HERO.PNG'', False)])
   \<and> ALL_Mode \<noteq> RECURSIVE
   \<and> scannable (Suc 1) disk_colliding ''/game''
   \<and> Normalize env_lower ''Music'' = Normalize env_lower ''MUSIC''
   \<and> Normalize env_lower ''MUSIC'' \<notin> Normalize env_lower ` set []
   \<and> scanned_directories ALL_Mode
        [(''Music'', True), (''Hero.png'', False), (''MUSIC'', True), (''HERO.PNG'', False)]
       = [] @ ''Music'' # [] @ ''MUSIC'' # []
   \<and> Warning (FolderTwice ''MUSIC'') \<in> set (collision_log env_lower {} [''Music'', ''MUSIC''])
   \<and> last_write_index env_lower [''Music'', ''MUSIC''] ''music'' = Some ''MUSIC''
   \<and> (\<exists>result. GetDirectoryMembers (Suc 1) env_lower disk_colliding ''/game'' ALL_Mode []
          = Inr (result, [Warning (FolderTwice ''MUSIC''), Warning FolderTwiceHint])
        \<and> map_of (member_directories result) ''music'' = Some ''MUSIC''
        \<and> map_of (member_files result) ''hero.png'' = Some ''HERO.PNG'')
   \<and> (\<exists>result log. GetDirectoryMembers (Suc 1) env_lower disk_colliding ''/game'' RECURSIVE []
          = Inr (result, log)
        \<and> map_of (member_files result) ''music/a.ogg'' = Some ''Music/a.ogg''
        \<and> map_of (member_files result) ''hero.png'' = Some ''HERO.PNG''
        \<and> member_directories result = []
        \<and> list_all is_debug log)"
proof -
  let ?entries = "[(''Music'', True), (''Hero.png'', False), (''MUSIC'', True),
                   (''HERO.PNG'', False)]"
  note defs = disk_colliding_def env_lower_def env_example_def lower_char_def MakePath_def
    replace_def backslash_def
  have dir: "disk_colliding ''/game'' = Some (FsDir True ?entries)"
    by (simp add: disk_colliding_def)
  have mode: "ALL_Mode \<noteq> RECURSIVE" by simp
  have through: "scannable (Suc 1) disk_colliding ''/game''"
    by (simp add: defs)
  have same: "Normalize env_lower ''Music'' = Normalize env_lower ''MUSIC''"
    by (simp add: defs)
  have key: "Normalize env_lower ''MUSIC'' = ''music''"
    by (simp add: defs)
  have last: "Normalize env_lower ''MUSIC'' \<notin> Normalize env_lower ` set []" by simp
  have names: "scanned_directories ALL_Mode ?entries = [] @ ''Music'' # [] @ ''MUSIC'' # []"
    by (simp add: scanned_directories_def)
  have files: "scanned_files ALL_Mode ?entries = [''Hero.png'', ''HERO.PNG'']"
    by (simp add: scanned_files_def)
  have log: "collision_log env_lower {} [''Music'', ''MUSIC'']
               = [Warning (FolderTwice ''MUSIC''), Warning FolderTwiceHint]"
    by (simp add: defs)
  have dirs_index: "last_write_index env_lower [''Music'', ''MUSIC''] ''music'' = Some ''MUSIC''"
    by (simp add: last_write_index_def defs)
  have files_index: "last_write_index env_lower [''Hero.png'', ''HERO.PNG''] ''hero.png''
                       = Some ''HERO.PNG''"
    by (simp add: last_write_index_def defs)
  have rec1: "recursive_index (Suc 1) env_lower disk_colliding ''/game'' [] ''music/a.ogg''
                = Some ''Music/a.ogg''"
    by (simp add: defs map_add_def)
  have rec2: "recursive_index (Suc 1) env_lower disk_colliding ''/game'' [] ''hero.png''
                = Some ''HERO.PNG''"
    by (simp add: defs map_add_def)
  note thm_all = scan_collisions [where pf = disk_colliding and path = "''/game''"
      and entries = ?entries and m = ALL_Mode and depth = 1 and e = env_lower
      and parent = "[]" and ?n1.0 = "''Music''" and ?n2.0 = "''MUSIC''" and xs = "[]"
      and ys = "[]" and zs = "[]", OF dir]
  note thm_rec = scan_collisions [where pf = disk_colliding and path = "''/game''"
      and entries = ?entries and m = RECURSIVE and depth = 1 and e = env_lower
      and parent = "[]" and ?n1.0 = "''Music''" and ?n2.0 = "''MUSIC''" and xs = "[]"
      and ys = "[]" and zs = "[]", OF dir]
  from thm_all mode
  have flat: "\<exists>result. GetDirectoryMembers (Suc 1) env_lower disk_colliding ''/game'' ALL_Mode []
          = Inr (result, collision_log env_lower {} (scanned_directories ALL_Mode ?entries))
        \<and> map_of (member_directories result)
            = last_write_index env_lower (scanned_directories ALL_Mode ?entries)
        \<and> map_of (member_files result)
            = last_write_index env_lower (scanned_files ALL_Mode ?entries)"
    by blast
  have all: "\<exists>result. GetDirectoryMembers (Suc 1) env_lower disk_colliding ''/game'' ALL_Mode []
          = Inr (result, [Warning (FolderTwice ''MUSIC''), Warning FolderTwiceHint])
        \<and> map_of (member_directories result) ''music'' = Some ''MUSIC''
        \<and> map_of (member_files result) ''hero.png'' = Some ''HERO.PNG''"
    using flat unfolding names files append_Nil log using dirs_index files_index by auto
  from thm_rec through
  have "\<exists>result log. GetDirectoryMembers (Suc 1) env_lower disk_colliding ''/game'' RECURSIVE []
          = Inr (result, log)
        \<and> map_of (member_files result)
            = recursive_index (Suc 1) env_lower disk_colliding ''/game'' []
        \<and> member_directories result = []
        \<and> list_all is_debug log"
    by blast
  with rec1 rec2
  have recursive: "\<exists>result log.
        GetDirectoryMembers (Suc 1) env_lower disk_colliding ''/game'' RECURSIVE []
          = Inr (result, log)
        \<and> map_of (member_files result) ''music/a.ogg'' = Some ''Music/a.ogg''
        \<and> map_of (member_files result) ''hero.png'' = Some ''HERO.PNG''
        \<and> member_directories result = []
        \<and> list_all is_debug log"
    by auto
  from thm_all same have warned:
    "Warning (FolderTwice ''MUSIC'') \<in> set (collision_log env_lower {} [''Music'', ''MUSIC''])"
    by simp
  from dir mode through same last names warned dirs_index all recursive
  show ?thesis by blast
qed

end
